theory Spec2Isabelle
  imports Main "HOL-Library.Sublist" "HOL-Library.Char_ord" "HOL-Library.List_Lexorder"
begin

section \<open>The world the extractor runs in\<close>

text \<open>
  The program of \<^verbatim>\<open>main.go\<close> is a sequence of effects: it prints, calls the network,
  and reads and writes files. The model threads an explicit \<open>world\<close> through every
  function: the files and directories that exist, and the trace of every observable effect
  in the order in which the program performs it. A Go \<^verbatim>\<open>error\<close> is a value of type
  \<open>error option\<close> (\<open>None\<close> is \<^verbatim>\<open>nil\<close>); a Go pair \<^verbatim>\<open>(x, err)\<close> is a sum
  \<open>error + 'a\<close> with \<open>Inl\<close> the error.
\<close>

type_synonym error = string
type_synonym path = string
type_synonym bytes = string

datatype event =
    PrintProcessing string           \<comment> \<open>stdout \<^verbatim>\<open>Processing: %s\<close>\<close>
  | PrintDownloading string path     \<comment> \<open>stdout \<^verbatim>\<open>Downloading from %s to: %s\<close>\<close>
  | PrintWritingOutput path          \<comment> \<open>stdout \<^verbatim>\<open>writing output to: %s\<close>\<close>
  | PrintRecordPath path             \<comment> \<open>stdout \<^verbatim>\<open>%s.json\<close>\<close>
  | WarnGetRecord string error       \<comment> \<open>stdout \<^verbatim>\<open>Warning: Failed to get record %s: %v\<close>\<close>
  | WarnMarshalRecord string error   \<comment> \<open>stdout \<^verbatim>\<open>Warning: Failed to marshal record %s: %v\<close>\<close>
  | PrintWritingBlobs path           \<comment> \<open>stdout \<^verbatim>\<open>writing blobs to: %s\<close>\<close>
  | PrintBlobExists path             \<comment> \<open>stdout \<^verbatim>\<open>%s\texists\<close>\<close>
  | PrintBlobDownloaded path         \<comment> \<open>stdout \<^verbatim>\<open>%s\tdownloaded\<close>\<close>
  | ErrorProcessing string error     \<comment> \<open>stderr \<^verbatim>\<open>error processing %s: %v\<close>\<close>
  | NetLookup string                 \<comment> \<open>\<^verbatim>\<open>dir.Lookup\<close> of an identifier\<close>
  | NetGetRepo string string         \<comment> \<open>\<^verbatim>\<open>SyncGetRepo\<close>: host, DID\<close>
  | NetListBlobs string string string \<comment> \<open>\<^verbatim>\<open>SyncListBlobs\<close>: host, cursor, DID\<close>
  | NetGetBlob string string string  \<comment> \<open>\<^verbatim>\<open>SyncGetBlob\<close>: host, content hash, DID\<close>
  | FileWritten path bytes           \<comment> \<open>\<^verbatim>\<open>os.WriteFile\<close> returned nil\<close>
  | FileWriteFailed path             \<comment> \<open>\<^verbatim>\<open>os.WriteFile\<close> returned an error\<close>

record world =
  disk :: "(path \<times> bytes) list"
  dirs :: "path set"
  trace :: "event list"

text \<open>
  \<open>disk\<close> holds the writes that reached the file system, the latest first; the content
  of a file is that of the latest write to its path, and \<open>files\<close> is the file system seen
  as a map from paths to contents.
\<close>

definition files :: "world \<Rightarrow> path \<rightharpoonup> bytes" where
  "files w = map_of (disk w)"

definition emit :: "event \<Rightarrow> world \<Rightarrow> world" where
  "emit e w = \<lparr>disk = disk w, dirs = dirs w, trace = trace w @ [e]\<rparr>"

text \<open>
  \<^verbatim>\<open>os.WriteFile\<close> opens the file with create and truncate and then writes the data.
  It can fail before the file is touched (the open fails) or after part of the data has
  been written; which of the two happens at a path is a parameter of the model.
\<close>

datatype wfault = NoFault | OpenFails error | WriteFails error nat

record Config =
  DownloadBlobs :: bool
  CarsDir :: path
  RecordsDir :: path
  DIDsFile :: path

record Identity =
  DID :: string
  PDSEndpoint :: string

text \<open>
  A repository as \<^verbatim>\<open>repo.ReadRepoFromCar\<close> of the indigo library returns it. The
  library is not part of this program: the model keeps what the program observes of it.
  \<open>leaves\<close> is the sequence of (key, content hash) pairs that the walk of the tree hands
  to the callback of \<^verbatim>\<open>ForEach\<close>, in the order of the walk, and \<open>walk_error\<close> the
  error with which the walk itself ends after them, if any (a block that is missing).
\<close>

record Repo =
  SignedCommit :: string
  leaves :: "(string \<times> string) list"
  walk_error :: "error option"
  GetRecord :: "string \<Rightarrow> error + string \<times> string"

text \<open>
  The collaborators of the program: the identity directory, the three remote calls, the
  archive decoder, the JSON encoder, the two path functions of \<^verbatim>\<open>path/filepath\<close>, and
  the faults of the file system. Each answers as a fixed function of its arguments: the
  remote state and the faults do not change during the runs that a theorem speaks about.
\<close>

record env =
  ParseAtIdentifier :: "string \<Rightarrow> error + string"
  Lookup :: "string \<Rightarrow> error + Identity"
  SyncGetRepo :: "string \<Rightarrow> string \<Rightarrow> error + bytes"
  SyncListBlobs :: "string \<Rightarrow> string \<Rightarrow> string \<Rightarrow> error + string list \<times> string option"
  SyncGetBlob :: "string \<Rightarrow> string \<Rightarrow> string \<Rightarrow> error + bytes"
  ReadRepoFromCar :: "bytes \<Rightarrow> error + Repo"
  MarshalIndent :: "string \<Rightarrow> error + bytes"
  Join :: "path \<Rightarrow> path \<Rightarrow> path"
  Dir :: "path \<Rightarrow> path"
  write_fault :: "path \<Rightarrow> wfault"
  mkdir_error :: "path \<Rightarrow> error option"

definition Stat :: "world \<Rightarrow> path \<Rightarrow> bool" where
  \<comment> \<open>\<^verbatim>\<open>_, err := os.Stat(p); err == nil\<close>\<close>
  "Stat w p \<longleftrightarrow> files w p \<noteq> None \<or> p \<in> dirs w"

definition MkdirAll :: "env \<Rightarrow> path \<Rightarrow> world \<Rightarrow> error option \<times> world" where
  "MkdirAll env p w =
     (case mkdir_error env p of
        None \<Rightarrow> (None, \<lparr>disk = disk w, dirs = insert p (dirs w), trace = trace w\<rparr>)
      | Some e \<Rightarrow> (Some e, w))"

definition WriteFile :: "env \<Rightarrow> path \<Rightarrow> bytes \<Rightarrow> world \<Rightarrow> error option \<times> world" where
  "WriteFile env name data w =
     (case write_fault env name of
        NoFault \<Rightarrow>
          (None, \<lparr>disk = (name, data) # disk w, dirs = dirs w,
                  trace = trace w @ [FileWritten name data]\<rparr>)
      | OpenFails e \<Rightarrow> (Some e, emit (FileWriteFailed name) w)
      | WriteFails e n \<Rightarrow>
          (Some e, \<lparr>disk = (name, take n data) # disk w, dirs = dirs w,
                    trace = trace w @ [FileWriteFailed name]\<rparr>))"

definition ReadFile :: "world \<Rightarrow> path \<Rightarrow> error + bytes" where
  "ReadFile w name =
     (case files w name of
        None \<Rightarrow> Inl (''open '' @ name @ '': no such file or directory'')
      | Some content \<Rightarrow> Inr content)"

section \<open>The identifier source\<close>

text \<open>
  \<^verbatim>\<open>strings.TrimSpace\<close> removes the leading and the trailing runes that
  \<^verbatim>\<open>unicode.IsSpace\<close> accepts. A Go string is a byte sequence, so the white-space runes
  appear here as their UTF-8 encodings: tab, line feed, vertical tab, form feed, carriage
  return, space, U+0085, U+00A0, U+1680, U+2000 to U+200A, U+2028, U+2029, U+202F, U+205F
  and U+3000. A byte that is not part of such an encoding decodes to a rune that is not
  white space, and the trimming stops there.
\<close>

definition utf8_spaces :: "string list" where
  "utf8_spaces =
     [[CHR 0x09], [CHR 0x0A], [CHR 0x0B], [CHR 0x0C], [CHR 0x0D], [CHR 0x20],
      [CHR 0xC2, CHR 0x85], [CHR 0xC2, CHR 0xA0], [CHR 0xE1, CHR 0x9A, CHR 0x80],
      [CHR 0xE2, CHR 0x80, CHR 0x80], [CHR 0xE2, CHR 0x80, CHR 0x81],
      [CHR 0xE2, CHR 0x80, CHR 0x82], [CHR 0xE2, CHR 0x80, CHR 0x83],
      [CHR 0xE2, CHR 0x80, CHR 0x84], [CHR 0xE2, CHR 0x80, CHR 0x85],
      [CHR 0xE2, CHR 0x80, CHR 0x86], [CHR 0xE2, CHR 0x80, CHR 0x87],
      [CHR 0xE2, CHR 0x80, CHR 0x88], [CHR 0xE2, CHR 0x80, CHR 0x89],
      [CHR 0xE2, CHR 0x80, CHR 0x8A], [CHR 0xE2, CHR 0x80, CHR 0xA8],
      [CHR 0xE2, CHR 0x80, CHR 0xA9], [CHR 0xE2, CHR 0x80, CHR 0xAF],
      [CHR 0xE2, CHR 0x81, CHR 0x9F], [CHR 0xE3, CHR 0x80, CHR 0x80]]"

definition leading_space :: "string \<Rightarrow> string option" where
  "leading_space s = find (\<lambda>p. prefix p s) utf8_spaces"

definition trailing_space :: "string \<Rightarrow> string option" where
  "trailing_space s = find (\<lambda>p. suffix p s) utf8_spaces"

function TrimLeft :: "string \<Rightarrow> string" where
  "TrimLeft s =
     (case leading_space s of
        None \<Rightarrow> s
      | Some p \<Rightarrow> TrimLeft (drop (length p) s))"
  by pat_completeness auto
termination
proof (relation "measure length")
  fix s p
  assume "leading_space s = Some p"
  then have "p \<in> set utf8_spaces" and "prefix p s"
    by (auto simp: leading_space_def find_Some_iff)
  then have "p \<noteq> []" and "length p \<le> length s"
    by (auto simp: utf8_spaces_def prefix_def)
  then show "(drop (length p) s, s) \<in> measure length"
    by (cases p) auto
qed simp

function TrimRight :: "string \<Rightarrow> string" where
  "TrimRight s =
     (case trailing_space s of
        None \<Rightarrow> s
      | Some p \<Rightarrow> TrimRight (take (length s - length p) s))"
  by pat_completeness auto
termination
proof (relation "measure length")
  fix s p
  assume "trailing_space s = Some p"
  then have "p \<in> set utf8_spaces" and "suffix p s"
    by (auto simp: trailing_space_def find_Some_iff)
  then have "p \<noteq> []" and "length p \<le> length s"
    by (auto simp: utf8_spaces_def suffix_def)
  then show "(take (length s - length p) s, s) \<in> measure length"
    by (cases p) auto
qed simp

declare TrimLeft.simps [simp del] TrimRight.simps [simp del]

definition TrimSpace :: "string \<Rightarrow> string" where
  "TrimSpace s = TrimRight (TrimLeft s)"

text \<open>\<^verbatim>\<open>strings.Split(s, "\n")\<close>: the pieces of \<open>s\<close> between line feeds, one more than
  there are line feeds.\<close>

fun Split :: "string \<Rightarrow> string list" where
  "Split [] = [[]]"
| "Split (c # cs) =
     (if c = CHR 0x0A then [] # Split cs
      else case Split cs of
             [] \<Rightarrow> [[c]]
           | l # ls \<Rightarrow> (c # l) # ls)"

text \<open>The loop of \<^verbatim>\<open>readDIDsFromFile\<close> over the lines, with its accumulator \<open>dids\<close>.\<close>

fun collect_dids :: "string list \<Rightarrow> string list \<Rightarrow> string list" where
  "collect_dids dids [] = dids"
| "collect_dids dids (line # rest) =
     (let line' = TrimSpace line
      in if line' \<noteq> [] then collect_dids (dids @ [line']) rest
         else collect_dids dids rest)"

definition readDIDsFromFile :: "world \<Rightarrow> path \<Rightarrow> error + string list" where
  "readDIDsFromFile w filename =
     (case ReadFile w filename of
        Inl err \<Rightarrow> Inl (''failed to read file: '' @ err)
      | Inr content \<Rightarrow> Inr (collect_dids [] (Split content)))"

definition getActivatedDIDs :: "world \<Rightarrow> path \<Rightarrow> error + string list" where
  "getActivatedDIDs w filename = readDIDsFromFile w filename"

text \<open>The text of a file whose lines are \<open>ls\<close>: the lines with a line feed between
  each two of them.\<close>

fun join_lines :: "string list \<Rightarrow> string" where
  "join_lines [] = []"
| "join_lines [l] = l"
| "join_lines (l # l' # ls) = l @ CHR 0x0A # join_lines (l' # ls)"

section \<open>The extraction pipeline\<close>

text \<open>
  \<^verbatim>\<open>r.ForEach(ctx, "", cb)\<close> walks the leaves of the tree in order and calls \<open>cb\<close> on
  each; the first error that \<open>cb\<close> returns stops the walk and is the result. (The library
  turns its own sentinel \<^verbatim>\<open>ErrDoneIterating\<close> into nil; the callbacks of this program
  return only the errors of \<^verbatim>\<open>os.WriteFile\<close>, never the sentinel.)
\<close>

fun walk_leaves ::
  "(string \<times> string) list \<Rightarrow> error option \<Rightarrow>
   (string \<Rightarrow> string \<Rightarrow> world \<Rightarrow> error option \<times> world) \<Rightarrow> world \<Rightarrow> error option \<times> world"
where
  "walk_leaves [] werr cb w = (werr, w)"
| "walk_leaves ((k, v) # rest) werr cb w =
     (case cb k v w of
        (Some err, w') \<Rightarrow> (Some err, w')
      | (None, w') \<Rightarrow> walk_leaves rest werr cb w')"

definition ForEach ::
  "Repo \<Rightarrow> (string \<Rightarrow> string \<Rightarrow> world \<Rightarrow> error option \<times> world) \<Rightarrow> world \<Rightarrow> error option \<times> world"
where
  "ForEach r cb w = walk_leaves (leaves r) (walk_error r) cb w"

text \<open>The closure that \<^verbatim>\<open>unpackRecords\<close> passes to \<^verbatim>\<open>ForEach\<close> (lines 169 to 189).
  The error of \<^verbatim>\<open>os.MkdirAll\<close> is dropped, as in the source.\<close>

definition record_callback ::
  "env \<Rightarrow> Repo \<Rightarrow> path \<Rightarrow> string \<Rightarrow> string \<Rightarrow> world \<Rightarrow> error option \<times> world"
where
  "record_callback env r recordsPath k v w =
     (case GetRecord r k of
        Inl err \<Rightarrow> (None, emit (WarnGetRecord k err) w)
      | Inr (c, rec) \<Rightarrow>
          (let recPath = Join env recordsPath k;
               w1 = emit (PrintRecordPath recPath) w;
               w2 = snd (MkdirAll env (Dir env recPath) w1)
           in case MarshalIndent env rec of
                Inl err \<Rightarrow> (None, emit (WarnMarshalRecord k err) w2)
              | Inr recJson \<Rightarrow> WriteFile env (recPath @ ''.json'') recJson w2))"

definition unpackRecords :: "env \<Rightarrow> path \<Rightarrow> path \<Rightarrow> world \<Rightarrow> error option \<times> world" where
  "unpackRecords env carPath recordsPath w =
     (case ReadFile w carPath of
        Inl err \<Rightarrow> (Some err, w)
      | Inr fi \<Rightarrow>
          (case ReadRepoFromCar env fi of
             Inl err \<Rightarrow> (Some err, w)
           | Inr r \<Rightarrow>
               (let sc = SignedCommit r;
                    w1 = emit (PrintWritingOutput recordsPath) w;
                    commitPath = Join env recordsPath ''_commit'';
                    w2 = snd (MkdirAll env (Dir env commitPath) w1)
                in case MarshalIndent env sc of
                     Inl err \<Rightarrow> (Some err, w2)
                   | Inr recJson \<Rightarrow>
                       (case WriteFile env (commitPath @ ''.json'') recJson w2 of
                          (Some err, w3) \<Rightarrow> (Some err, w3)
                        | (None, w3) \<Rightarrow> ForEach r (record_callback env r recordsPath) w3))))"

definition downloadRepo :: "env \<Rightarrow> Identity \<Rightarrow> path \<Rightarrow> world \<Rightarrow> error option \<times> world" where
  "downloadRepo env ident carPath w =
     (let host = PDSEndpoint ident
      in if host = [] then (Some ''no PDS endpoint for identity'', w)
         else
           (let w1 = emit (PrintDownloading host carPath) w;
                w2 = emit (NetGetRepo host (DID ident)) w1
            in case SyncGetRepo env host (DID ident) of
                 Inl err \<Rightarrow> (Some err, w2)
               | Inr repoBytes \<Rightarrow> WriteFile env carPath repoBytes w2))"

section \<open>The blob synchronizer\<close>

text \<open>The inner loop of \<^verbatim>\<open>downloadBlobs\<close> over the content hashes of one page
  (lines 214 to 228).\<close>

fun downloadBlobs_page ::
  "env \<Rightarrow> string \<Rightarrow> string \<Rightarrow> path \<Rightarrow> string list \<Rightarrow> world \<Rightarrow> error option \<times> world"
where
  "downloadBlobs_page env host did topDir [] w = (None, w)"
| "downloadBlobs_page env host did topDir (cidStr # rest) w =
     (let blobPath = Join env topDir cidStr
      in if Stat w blobPath
         then downloadBlobs_page env host did topDir rest (emit (PrintBlobExists blobPath) w)
         else
           (let w1 = emit (NetGetBlob host cidStr did) w
            in case SyncGetBlob env host cidStr did of
                 Inl err \<Rightarrow> (Some err, w1)
               | Inr blobBytes \<Rightarrow>
                   (case WriteFile env blobPath blobBytes w1 of
                      (Some err, w2) \<Rightarrow> (Some err, w2)
                    | (None, w2) \<Rightarrow>
                        downloadBlobs_page env host did topDir rest
                          (emit (PrintBlobDownloaded blobPath) w2))))"

text \<open>
  The pagination loop (lines 209 to 234) has no bound of its own: a listing that keeps
  returning a cursor keeps it running. The model counts the listing calls it may still make;
  with none left the result is \<open>OutOfFuel\<close> and the world is the one reached so far.
\<close>

datatype outcome = Returned "error option" | OutOfFuel

fun downloadBlobs_loop ::
  "nat \<Rightarrow> env \<Rightarrow> string \<Rightarrow> string \<Rightarrow> path \<Rightarrow> string \<Rightarrow> world \<Rightarrow> outcome \<times> world"
where
  "downloadBlobs_loop 0 env host did topDir cursor w = (OutOfFuel, w)"
| "downloadBlobs_loop (Suc n) env host did topDir cursor w =
     (let w1 = emit (NetListBlobs host cursor did) w
      in case SyncListBlobs env host cursor did of
           Inl err \<Rightarrow> (Returned (Some err), w1)
         | Inr (cids, next_cursor) \<Rightarrow>
             (case downloadBlobs_page env host did topDir cids w1 of
                (Some err, w2) \<Rightarrow> (Returned (Some err), w2)
              | (None, w2) \<Rightarrow>
                  if next_cursor \<noteq> None \<and> the next_cursor \<noteq> []
                  then downloadBlobs_loop n env host did topDir (the next_cursor) w2
                  else (Returned None, w2)))"

definition downloadBlobs :: "nat \<Rightarrow> env \<Rightarrow> Identity \<Rightarrow> path \<Rightarrow> world \<Rightarrow> outcome \<times> world" where
  "downloadBlobs fuel env ident recordsPath w =
     (let topDir = Join env recordsPath ''_blob'';
          w1 = emit (PrintWritingBlobs topDir) w;
          w2 = snd (MkdirAll env topDir w1);
          host = PDSEndpoint ident
      in if host = [] then (Returned (Some ''no PDS endpoint for identity''), w2)
         else downloadBlobs_loop fuel env host (DID ident) topDir [] w2)"

section \<open>The batch driver\<close>

definition processRepo :: "nat \<Rightarrow> env \<Rightarrow> Config \<Rightarrow> string \<Rightarrow> world \<Rightarrow> outcome \<times> world" where
  "processRepo fuel env config did w =
     (case ParseAtIdentifier env did of
        Inl err \<Rightarrow> (Returned (Some err), w)
      | Inr atid \<Rightarrow>
          (let w1 = emit (PrintProcessing atid) w;
               w2 = emit (NetLookup atid) w1
           in case Lookup env atid of
                Inl err \<Rightarrow> (Returned (Some err), w2)
              | Inr ident \<Rightarrow>
                  (let carPath = Join env (CarsDir config) (DID ident @ ''.car'')
                   in case downloadRepo env ident carPath w2 of
                        (Some err, w3) \<Rightarrow> (Returned (Some err), w3)
                      | (None, w3) \<Rightarrow>
                          (let recordsPath = Join env (RecordsDir config) (DID ident)
                           in case unpackRecords env carPath recordsPath w3 of
                                (Some err, w4) \<Rightarrow> (Returned (Some err), w4)
                              | (None, w4) \<Rightarrow>
                                  if DownloadBlobs config
                                  then downloadBlobs fuel env ident recordsPath w4
                                  else (Returned None, w4)))))"

fun ensureDirectories_loop :: "env \<Rightarrow> path list \<Rightarrow> world \<Rightarrow> error option \<times> world" where
  "ensureDirectories_loop env [] w = (None, w)"
| "ensureDirectories_loop env (dir # rest) w =
     (case MkdirAll env dir w of
        (Some err, w') \<Rightarrow> (Some (''failed to create directory '' @ dir @ '': '' @ err), w')
      | (None, w') \<Rightarrow> ensureDirectories_loop env rest w')"

definition ensureDirectories :: "env \<Rightarrow> Config \<Rightarrow> world \<Rightarrow> error option \<times> world" where
  "ensureDirectories env config w =
     ensureDirectories_loop env [CarsDir config, RecordsDir config] w"

text \<open>The loop of \<^verbatim>\<open>run\<close> over the identifiers (lines 77 to 82), and \<^verbatim>\<open>run\<close>.\<close>

fun run_loop :: "nat \<Rightarrow> env \<Rightarrow> Config \<Rightarrow> string list \<Rightarrow> world \<Rightarrow> outcome \<times> world" where
  "run_loop fuel env config [] w = (Returned None, w)"
| "run_loop fuel env config (did # rest) w =
     (case processRepo fuel env config did w of
        (OutOfFuel, w') \<Rightarrow> (OutOfFuel, w')
      | (Returned (Some err), w') \<Rightarrow>
          run_loop fuel env config rest (emit (ErrorProcessing did err) w')
      | (Returned None, w') \<Rightarrow> run_loop fuel env config rest w')"

definition run :: "nat \<Rightarrow> env \<Rightarrow> Config \<Rightarrow> world \<Rightarrow> outcome \<times> world" where
  "run fuel env config w =
     (case ensureDirectories env config w of
        (Some err, w1) \<Rightarrow> (Returned (Some err), w1)
      | (None, w1) \<Rightarrow>
          (case getActivatedDIDs w1 (DIDsFile config) of
             Inl err \<Rightarrow> (Returned (Some (''failed to get DIDs from file: '' @ err)), w1)
           | Inr dids \<Rightarrow> run_loop fuel env config dids w1))"

section \<open>Observations on the trace\<close>

fun is_fetch :: "event \<Rightarrow> bool" where
  "is_fetch (NetGetBlob h c d) = True"
| "is_fetch _ = False"

fun listing_cursors :: "event list \<Rightarrow> string list" where
  "listing_cursors [] = []"
| "listing_cursors (NetListBlobs h c d # es) = c # listing_cursors es"
| "listing_cursors (e # es) = listing_cursors es"

text \<open>
  The paths of the exported units, the JSON of a record (when the record resolves and
  serializes), the files that a trace wrote, and what the walk of a list of leaves exports
  and reports when no write fails.
\<close>

definition commit_file :: "env \<Rightarrow> path \<Rightarrow> path" where
  "commit_file env recordsPath = Join env recordsPath ''_commit'' @ ''.json''"

definition record_file :: "env \<Rightarrow> path \<Rightarrow> string \<Rightarrow> path" where
  "record_file env recordsPath k = Join env recordsPath k @ ''.json''"

definition record_json :: "env \<Rightarrow> Repo \<Rightarrow> string \<Rightarrow> bytes option" where
  "record_json env r k =
     (case GetRecord r k of
        Inl err \<Rightarrow> None
      | Inr (c, rec) \<Rightarrow> (case MarshalIndent env rec of Inl err \<Rightarrow> None | Inr j \<Rightarrow> Some j))"

fun exported :: "event list \<Rightarrow> (path \<times> bytes) list" where
  "exported [] = []"
| "exported (FileWritten p b # es) = (p, b) # exported es"
| "exported (e # es) = exported es"

fun exports_of :: "env \<Rightarrow> Repo \<Rightarrow> path \<Rightarrow> (string \<times> string) list \<Rightarrow> (path \<times> bytes) list" where
  "exports_of env r recordsPath [] = []"
| "exports_of env r recordsPath ((k, v) # ls) =
     (case record_json env r k of
        None \<Rightarrow> exports_of env r recordsPath ls
      | Some j \<Rightarrow> (record_file env recordsPath k, j) # exports_of env r recordsPath ls)"

fun is_warning :: "event \<Rightarrow> bool" where
  "is_warning (WarnGetRecord k e) = True"
| "is_warning (WarnMarshalRecord k e) = True"
| "is_warning _ = False"

fun warnings_of :: "env \<Rightarrow> Repo \<Rightarrow> (string \<times> string) list \<Rightarrow> event list" where
  "warnings_of env r [] = []"
| "warnings_of env r ((k, v) # ls) =
     (case GetRecord r k of
        Inl err \<Rightarrow> WarnGetRecord k err # warnings_of env r ls
      | Inr (c, rec) \<Rightarrow>
          (case MarshalIndent env rec of
             Inl err \<Rightarrow> WarnMarshalRecord k err # warnings_of env r ls
           | Inr j \<Rightarrow> warnings_of env r ls))"

text \<open>
  What the batch driver shows of each identifier: the line that starts its pipeline and the
  line that reports its failure. \<open>quiet\<close> are the events of the stages below the driver;
  \<open>parsed\<close> are the identifiers of a list that parse.
\<close>

fun quiet :: "event \<Rightarrow> bool" where
  "quiet (PrintProcessing a) = False"
| "quiet (ErrorProcessing d e) = False"
| "quiet _ = True"

fun processing_of :: "event list \<Rightarrow> string list" where
  "processing_of [] = []"
| "processing_of (PrintProcessing a # es) = a # processing_of es"
| "processing_of (e # es) = processing_of es"

fun error_reports :: "event list \<Rightarrow> (string \<times> error) list" where
  "error_reports [] = []"
| "error_reports (ErrorProcessing d e # es) = (d, e) # error_reports es"
| "error_reports (e # es) = error_reports es"

fun parsed :: "env \<Rightarrow> string list \<Rightarrow> string list" where
  "parsed env [] = []"
| "parsed env (did # rest) =
     (case ParseAtIdentifier env did of
        Inl err \<Rightarrow> parsed env rest
      | Inr atid \<Rightarrow> atid # parsed env rest)"

text \<open>
  \<open>pages_end n\<close>: the listing that starts at a cursor ends within \<open>n\<close> calls (a call
  fails, or returns no cursor or an empty one). \<open>pipeline_results\<close> is the list of the
  results of the pipelines of a batch, one for each identifier in turn, each pipeline started
  in the world the previous one left (with its error reported); \<open>failures_of\<close> are the
  errors among them.
\<close>

fun pages_end :: "nat \<Rightarrow> env \<Rightarrow> string \<Rightarrow> string \<Rightarrow> string \<Rightarrow> bool" where
  "pages_end 0 env host did cursor = False"
| "pages_end (Suc n) env host did cursor =
     (case SyncListBlobs env host cursor did of
        Inl err \<Rightarrow> True
      | Inr (cids, next_cursor) \<Rightarrow>
          if next_cursor \<noteq> None \<and> the next_cursor \<noteq> []
          then pages_end n env host did (the next_cursor)
          else True)"

fun pipeline_results ::
  "nat \<Rightarrow> env \<Rightarrow> Config \<Rightarrow> string list \<Rightarrow> world \<Rightarrow> (string \<times> error option) list"
where
  "pipeline_results fuel env config [] w = []"
| "pipeline_results fuel env config (did # rest) w =
     (case processRepo fuel env config did w of
        (OutOfFuel, w') \<Rightarrow> []
      | (Returned None, w') \<Rightarrow> (did, None) # pipeline_results fuel env config rest w'
      | (Returned (Some err), w') \<Rightarrow>
          (did, Some err)
            # pipeline_results fuel env config rest (emit (ErrorProcessing did err) w'))"

fun failures_of :: "(string \<times> error option) list \<Rightarrow> (string \<times> error) list" where
  "failures_of [] = []"
| "failures_of ((did, None) # rs) = failures_of rs"
| "failures_of ((did, Some err) # rs) = (did, err) # failures_of rs"

section \<open>Concrete inputs\<close>

text \<open>A file of identifiers: one is listed twice, one line carries surrounding white space
  and a carriage return, and three lines are blank.\<close>

definition dids_lines :: "string list" where
  "dids_lines =
     [''did:plc:alice'', [], ''  did:plc:bob'' @ [CHR 0x0D], ''did:plc:alice'', '' '', []]"

definition dids_world :: world where
  "dids_world = \<lparr>disk = [(''dids.txt'', join_lines dids_lines)], dirs = {}, trace = []\<rparr>"

text \<open>
  One account, \<open>alice\<close>, whose repository has three records; the block of the second
  one is missing. Her blobs are listed on two pages, and \<open>blob2\<close> is on both.
\<close>

definition alice :: Identity where
  "alice = \<lparr>DID = ''did:plc:alice'', PDSEndpoint = ''pds.example''\<rparr>"

definition alice_repo :: Repo where
  "alice_repo =
     \<lparr>SignedCommit = ''commit of alice'',
      leaves = [(''post/1'', ''cid1''), (''post/2'', ''cid2''), (''post/3'', ''cid3'')],
      walk_error = None,
      GetRecord = (\<lambda>k. if k = ''post/2'' then Inl ''block not found''
                        else Inr (''cid'', ''record '' @ k))\<rparr>"

definition demo_env :: env where
  "demo_env =
     \<lparr>ParseAtIdentifier = (\<lambda>s. if s = ''not a did'' then Inl ''invalid identifier'' else Inr s),
      Lookup = (\<lambda>a. if a = ''did:plc:alice'' then Inr alice else Inl ''identity not found''),
      SyncGetRepo = (\<lambda>host did. Inr (''car of '' @ did)),
      SyncListBlobs = (\<lambda>host cursor did.
         if cursor = [] then Inr ([''blob1'', ''blob2''], Some ''page2'')
         else if cursor = ''page2'' then Inr ([''blob2'', ''blob3''], Some [])
         else Inl ''unknown cursor''),
      SyncGetBlob = (\<lambda>host c did. Inr (''bytes of '' @ c)),
      ReadRepoFromCar = (\<lambda>b. if b = ''car of did:plc:alice'' then Inr alice_repo
                              else Inl ''malformed archive''),
      MarshalIndent = (\<lambda>v. Inr (''{'' @ v @ ''}'')),
      Join = (\<lambda>a b. a @ ''/'' @ b),
      Dir = (\<lambda>p. rev (tl (dropWhile (\<lambda>c. c \<noteq> CHR ''/'') (rev p)))),
      write_fault = (\<lambda>p. NoFault),
      mkdir_error = (\<lambda>p. None)\<rparr>"

definition empty_world :: world where
  "empty_world = \<lparr>disk = [], dirs = {}, trace = []\<rparr>"

definition demo_config :: Config where
  "demo_config = \<lparr>DownloadBlobs = True, CarsDir = ''cars'', RecordsDir = ''records'', DIDsFile = ''dids.txt''\<rparr>"



text \<open>
  Worlds that hold the archive of \<open>alice\<close> already (the one her server sends, and a stale
  one), a file system that fails to create the file of her third record, a server that fails
  to deliver \<open>blob2\<close>, and a batch in which the second identifier does not resolve and the
  third does not parse.
\<close>

definition car_world :: world where
  "car_world = \<lparr>disk = [(''cars/did:plc:alice.car'', ''car of did:plc:alice'')], dirs = {}, trace = []\<rparr>"

definition stale_world :: world where
  "stale_world = \<lparr>disk = [(''cars/did:plc:alice.car'', ''old archive'')], dirs = {}, trace = []\<rparr>"

definition disk_full_env :: env where
  "disk_full_env = demo_env\<lparr>write_fault :=
     (\<lambda>p. if p = ''records/did:plc:alice/post/3.json'' then OpenFails ''disk full'' else NoFault)\<rparr>"

definition blob2_fails_env :: env where
  "blob2_fails_env = demo_env\<lparr>SyncGetBlob :=
     (\<lambda>host c did. if c = ''blob2'' then Inl ''blob fetch failed'' else Inr (''bytes of '' @ c))\<rparr>"

definition demo_dids :: "string list" where
  "demo_dids = [''did:plc:alice'', ''did:plc:bob'', ''not a did'', ''did:plc:alice'']"


text \<open>A repository whose walk hands out \<open>post/2\<close> before \<open>post/1\<close>, and a decoder that
  returns it.\<close>

definition unsorted_repo :: Repo where
  "unsorted_repo =
     \<lparr>SignedCommit = ''commit of alice'',
      leaves = [(''post/2'', ''cid2''), (''post/1'', ''cid1'')],
      walk_error = None,
      GetRecord = (\<lambda>k. Inr (''cid'', ''record '' @ k))\<rparr>"

definition unsorted_env :: env where
  "unsorted_env = demo_env\<lparr>ReadRepoFromCar := (\<lambda>b. Inr unsorted_repo)\<rparr>"

section \<open>Basic facts about the file system and the trace\<close>

lemma emit_fields [simp]:
  "disk (emit e w) = disk w" "files (emit e w) = files w" "dirs (emit e w) = dirs w"
  "trace (emit e w) = trace w @ [e]"
  by (simp_all add: emit_def files_def)

lemma Stat_emit [simp]: "Stat (emit e w) p = Stat w p"
  by (simp add: Stat_def)

lemma MkdirAll_fields [simp]:
  "files (snd (MkdirAll env p w)) = files w" "trace (snd (MkdirAll env p w)) = trace w"
  by (simp_all add: MkdirAll_def files_def split: option.splits)

lemma Stat_MkdirAll: "Stat w q \<Longrightarrow> Stat (snd (MkdirAll env p w)) q"
  by (auto simp: MkdirAll_def Stat_def files_def split: option.splits)

lemma WriteFile_trace:
  "trace (snd (WriteFile env p d w)) =
     trace w @ [if write_fault env p = NoFault then FileWritten p d else FileWriteFailed p]"
  by (simp add: WriteFile_def split: wfault.splits)

lemma WriteFile_result:
  "fst (WriteFile env p d w) =
     (case write_fault env p of NoFault \<Rightarrow> None | OpenFails e \<Rightarrow> Some e | WriteFails e n \<Rightarrow> Some e)"
  by (simp add: WriteFile_def split: wfault.splits)

lemma WriteFile_other: "q \<noteq> p \<Longrightarrow> files (snd (WriteFile env p d w)) q = files w q"
  by (simp add: WriteFile_def files_def split: wfault.splits)

lemma WriteFile_Stat_mono: "Stat w q \<Longrightarrow> Stat (snd (WriteFile env p d w)) q"
  by (auto simp: WriteFile_def Stat_def files_def split: wfault.splits)

lemma WriteFile_ok:
  "WriteFile env p d w = (None, w') \<Longrightarrow>
     write_fault env p = NoFault \<and> files w' = (files w)(p \<mapsto> d) \<and> dirs w' = dirs w
       \<and> trace w' = trace w @ [FileWritten p d]"
  by (auto simp: WriteFile_def files_def split: wfault.splits)

lemma WriteFile_ok_Stat: "WriteFile env p d w = (None, w') \<Longrightarrow> Stat w' p"
  by (auto simp: Stat_def dest: WriteFile_ok)

lemma WriteFile_keeps:
  "\<not> Stat w p \<Longrightarrow> files w q = Some b \<Longrightarrow> files (snd (WriteFile env p d w)) q = Some b"
  by (cases "q = p") (auto simp: WriteFile_other Stat_def)


lemma MkdirAll_dirs: "dirs w \<subseteq> dirs (snd (MkdirAll env p w))"
  by (auto simp: MkdirAll_def split: option.splits)

lemma page_invariant:
  "downloadBlobs_page env host did topDir cids w = (res, w') \<Longrightarrow>
   \<exists>evs. trace w' = trace w @ evs
     \<and> (\<forall>q. Stat w q \<longrightarrow> Stat w' q)
     \<and> (\<forall>q b. files w q = Some b \<longrightarrow> files w' q = Some b)
     \<and> (\<forall>c. count_list evs (NetGetBlob host c did) \<le> 1)
     \<and> (\<forall>e\<in>set evs. is_fetch e \<longrightarrow>
           (\<exists>c\<in>set cids. e = NetGetBlob host c did \<and> \<not> Stat w (Join env topDir c)))
     \<and> (res = None \<longrightarrow> (\<forall>c\<in>set cids. Stat w' (Join env topDir c)))"
proof (induction cids arbitrary: w res w')
  case Nil
  then show ?case by simp
next
  case (Cons c cs)
  let ?p = "Join env topDir c"
  show ?case
  proof (cases "Stat w ?p")
    case True
    with Cons.prems have "downloadBlobs_page env host did topDir cs (emit (PrintBlobExists ?p) w) = (res, w')"
      by (simp add: Let_def)
    from Cons.IH[OF this] obtain evs where
      e: "trace w' = trace (emit (PrintBlobExists ?p) w) @ evs"
      and m: "\<forall>q. Stat (emit (PrintBlobExists ?p) w) q \<longrightarrow> Stat w' q"
      and k: "\<forall>q b. files (emit (PrintBlobExists ?p) w) q = Some b \<longrightarrow> files w' q = Some b"
      and c1: "\<forall>c. count_list evs (NetGetBlob host c did) \<le> 1"
      and sk: "\<forall>e\<in>set evs. is_fetch e \<longrightarrow>
           (\<exists>c\<in>set cs. e = NetGetBlob host c did \<and> \<not> Stat (emit (PrintBlobExists ?p) w) (Join env topDir c))"
      and ex: "res = None \<longrightarrow> (\<forall>c\<in>set cs. Stat w' (Join env topDir c))"
      by blast
    show ?thesis
      apply (rule exI[of _ "PrintBlobExists ?p # evs"])
      using e m k c1 sk ex True by auto
  next
    case False
    show ?thesis
    proof (cases "SyncGetBlob env host c did")
      case (Inl err)
      with False Cons.prems have "res = Some err" "w' = emit (NetGetBlob host c did) w"
        by (auto simp: Let_def)
      then show ?thesis
        apply (intro exI[of _ "[NetGetBlob host c did]"])
        using False by auto
    next
      case (Inr blobBytes)
      let ?w1 = "emit (NetGetBlob host c did) w"
      obtain r2 w2 where wf: "WriteFile env ?p blobBytes ?w1 = (r2, w2)"
        by (cases "WriteFile env ?p blobBytes ?w1")
      have tr2: "\<exists>e. trace w2 = trace w @ [NetGetBlob host c did, e] \<and> \<not> is_fetch e"
        using WriteFile_trace[of env ?p blobBytes ?w1] wf by auto
      have mono2: "\<forall>q. Stat w q \<longrightarrow> Stat w2 q"
        using WriteFile_Stat_mono[of ?w1 _ env ?p blobBytes] wf by auto
      have keep2: "\<forall>q b. files w q = Some b \<longrightarrow> files w2 q = Some b"
        using WriteFile_keeps[of ?w1 ?p _ _ env blobBytes] wf False by auto
      show ?thesis
      proof (cases r2)
        case (Some err)
        with False Inr wf Cons.prems have "res = Some err" "w' = w2"
          by (auto simp: Let_def)
        then show ?thesis
          using tr2 mono2 keep2 False by auto
      next
        case None
        let ?w3 = "emit (PrintBlobDownloaded ?p) w2"
        from None False Inr wf Cons.prems
        have "downloadBlobs_page env host did topDir cs ?w3 = (res, w')"
          by (auto simp: Let_def)
        from Cons.IH[OF this] obtain evs where
          e: "trace w' = trace ?w3 @ evs"
          and m: "\<forall>q. Stat ?w3 q \<longrightarrow> Stat w' q"
          and k: "\<forall>q b. files ?w3 q = Some b \<longrightarrow> files w' q = Some b"
          and c1: "\<forall>c. count_list evs (NetGetBlob host c did) \<le> 1"
          and sk: "\<forall>e\<in>set evs. is_fetch e \<longrightarrow>
             (\<exists>c\<in>set cs. e = NetGetBlob host c did \<and> \<not> Stat ?w3 (Join env topDir c))"
          and ex: "res = None \<longrightarrow> (\<forall>c\<in>set cs. Stat w' (Join env topDir c))"
          by blast
        have st: "Stat w2 ?p" using wf None by (auto dest: WriteFile_ok_Stat)
        have tr2': "trace w2 = trace w @ [NetGetBlob host c did, FileWritten ?p blobBytes]"
          using wf None by (auto dest: WriteFile_ok)
        have notin: "NetGetBlob host c did \<notin> set evs" using sk st by fastforce
        have sk': "\<forall>e\<in>set evs. is_fetch e \<longrightarrow>
             (\<exists>c\<in>set cs. e = NetGetBlob host c did \<and> \<not> Stat w (Join env topDir c))"
          using sk mono2 by fastforce
        show ?thesis
          apply (rule exI[of _ "NetGetBlob host c did # FileWritten ?p blobBytes # PrintBlobDownloaded ?p # evs"])
          using e m k c1 sk' ex st tr2' mono2 keep2 notin False by (auto simp: count_list_0_iff)
      qed
    qed
  qed
qed

lemma loop_invariant:
  "downloadBlobs_loop n env host did topDir cur w = (out, w') \<Longrightarrow>
   \<exists>evs. trace w' = trace w @ evs
     \<and> (\<forall>q. Stat w q \<longrightarrow> Stat w' q)
     \<and> (\<forall>q b. files w q = Some b \<longrightarrow> files w' q = Some b)
     \<and> (\<forall>c. count_list evs (NetGetBlob host c did) \<le> 1)
     \<and> (\<forall>e\<in>set evs. is_fetch e \<longrightarrow>
           (\<exists>c. e = NetGetBlob host c did \<and> \<not> Stat w (Join env topDir c)))"
proof (induction n arbitrary: cur w out w')
  case 0
  then show ?case by simp
next
  case (Suc n)
  let ?w1 = "emit (NetListBlobs host cur did) w"
  show ?case
  proof (cases "SyncListBlobs env host cur did")
    case (Inl err)
    with Suc.prems have "w' = ?w1" by (simp add: Let_def)
    then show ?thesis by (intro exI[of _ "[NetListBlobs host cur did]"]) auto
  next
    case (Inr page)
    obtain cids nxt where page: "page = (cids, nxt)" by (cases page)
    obtain res w2 where pg: "downloadBlobs_page env host did topDir cids ?w1 = (res, w2)"
      by (cases "downloadBlobs_page env host did topDir cids ?w1")
    from page_invariant[OF pg] obtain evp where
      e: "trace w2 = trace ?w1 @ evp"
      and m: "\<forall>q. Stat ?w1 q \<longrightarrow> Stat w2 q"
      and k: "\<forall>q b. files ?w1 q = Some b \<longrightarrow> files w2 q = Some b"
      and c1: "\<forall>c. count_list evp (NetGetBlob host c did) \<le> 1"
      and sk: "\<forall>e\<in>set evp. is_fetch e \<longrightarrow>
           (\<exists>c\<in>set cids. e = NetGetBlob host c did \<and> \<not> Stat ?w1 (Join env topDir c))"
      and ex: "res = None \<longrightarrow> (\<forall>c\<in>set cids. Stat w2 (Join env topDir c))"
      by blast
    have stop: ?thesis if "w' = w2"
      apply (rule exI[of _ "NetListBlobs host cur did # evp"])
      using that e m k c1 sk by auto
    show ?thesis
    proof (cases "res = None \<and> nxt \<noteq> None \<and> the nxt \<noteq> []")
      case False
      with Suc.prems Inr page pg have "w' = w2"
        by (auto simp: Let_def split: option.splits if_splits)
      then show ?thesis by (rule stop)
    next
      case True
      with Suc.prems Inr page pg
      have "downloadBlobs_loop n env host did topDir (the nxt) w2 = (out, w')"
        by (auto simp: Let_def)
      from Suc.IH[OF this] obtain evl where
        e2: "trace w' = trace w2 @ evl"
        and m2: "\<forall>q. Stat w2 q \<longrightarrow> Stat w' q"
        and k2: "\<forall>q b. files w2 q = Some b \<longrightarrow> files w' q = Some b"
        and c2: "\<forall>c. count_list evl (NetGetBlob host c did) \<le> 1"
        and sk2: "\<forall>e\<in>set evl. is_fetch e \<longrightarrow>
           (\<exists>c. e = NetGetBlob host c did \<and> \<not> Stat w2 (Join env topDir c))"
        by blast
      have once: "count_list evp (NetGetBlob host c did) + count_list evl (NetGetBlob host c did) \<le> 1"
        for c
      proof (cases "NetGetBlob host c did \<in> set evp")
        case True
        with sk have "c \<in> set cids" by fastforce
        with ex \<open>res = None \<and> _\<close> have "Stat w2 (Join env topDir c)" by simp
        with sk2 have "NetGetBlob host c did \<notin> set evl" by fastforce
        then show ?thesis using c1 by (simp add: count_list_0_iff)
      next
        case False
        then show ?thesis using c2 by (simp add: count_list_0_iff)
      qed
      have sk2': "\<forall>e\<in>set evl. is_fetch e \<longrightarrow>
           (\<exists>c. e = NetGetBlob host c did \<and> \<not> Stat w (Join env topDir c))"
        using sk2 m by fastforce
      show ?thesis
        apply (rule exI[of _ "NetListBlobs host cur did # evp @ evl"])
        using e e2 m m2 k k2 once sk sk2' by auto
    qed
  qed
qed

lemma page_all_exist:
  "\<forall>c\<in>set cids. Stat w (Join env topDir c) \<Longrightarrow>
   \<exists>w'. downloadBlobs_page env host did topDir cids w = (None, w')
     \<and> files w' = files w \<and> dirs w' = dirs w
     \<and> trace w' = trace w @ map (\<lambda>c. PrintBlobExists (Join env topDir c)) cids"
proof (induction cids arbitrary: w)
  case Nil
  then show ?case by simp
next
  case (Cons c cs)
  let ?w1 = "emit (PrintBlobExists (Join env topDir c)) w"
  from Cons.prems have "\<forall>c\<in>set cs. Stat ?w1 (Join env topDir c)" by simp
  from Cons.IH[OF this] obtain w' where
    "downloadBlobs_page env host did topDir cs ?w1 = (None, w')"
    "files w' = files ?w1" "dirs w' = dirs ?w1"
    "trace w' = trace ?w1 @ map (\<lambda>c. PrintBlobExists (Join env topDir c)) cs"
    by blast
  with Cons.prems show ?case by (simp add: Let_def)
qed

lemma Stat_cong: "files v = files w \<Longrightarrow> dirs v = dirs w \<Longrightarrow> Stat v q = Stat w q"
  by (simp add: Stat_def)

lemma loop_rerun:
  "downloadBlobs_loop n env host did topDir cur w = (Returned None, w') \<Longrightarrow>
   (\<forall>q. Stat w' q \<longrightarrow> Stat v q) \<Longrightarrow>
   \<exists>evs. trace (snd (downloadBlobs_loop m env host did topDir cur v)) = trace v @ evs
     \<and> (\<forall>e\<in>set evs. \<not> is_fetch e)
     \<and> files (snd (downloadBlobs_loop m env host did topDir cur v)) = files v
     \<and> (n \<le> m \<longrightarrow> fst (downloadBlobs_loop m env host did topDir cur v) = Returned None)"
proof (induction n arbitrary: cur w v m)
  case 0
  then show ?case by simp
next
  case (Suc n)
  show ?case
  proof (cases m)
    case 0
    then show ?thesis by simp
  next
    case (Suc m')
    let ?w1 = "emit (NetListBlobs host cur did) w"
    let ?v1 = "emit (NetListBlobs host cur did) v"
    from Suc.prems(1) obtain cids nxt where ls: "SyncListBlobs env host cur did = Inr (cids, nxt)"
      by (cases "SyncListBlobs env host cur did") (auto simp: Let_def)
    obtain res w2 where pg: "downloadBlobs_page env host did topDir cids ?w1 = (res, w2)"
      by (cases "downloadBlobs_page env host did topDir cids ?w1")
    with Suc.prems(1) ls have res: "res = None"
      by (cases res) (auto simp: Let_def)
    from page_invariant[OF pg] res have ex2: "\<forall>c\<in>set cids. Stat w2 (Join env topDir c)"
      by blast
    have w2w': "\<forall>q. Stat w2 q \<longrightarrow> Stat w' q"
    proof (cases "nxt \<noteq> None \<and> the nxt \<noteq> []")
      case True
      with Suc.prems(1) ls pg res
      have "downloadBlobs_loop n env host did topDir (the nxt) w2 = (Returned None, w')"
        by (auto simp: Let_def)
      from loop_invariant[OF this] show ?thesis by blast
    next
      case False
      with Suc.prems(1) ls pg res have "w' = w2" by (auto simp: Let_def)
      then show ?thesis by simp
    qed
    with ex2 Suc.prems(2) have "\<forall>c\<in>set cids. Stat ?v1 (Join env topDir c)" by simp
    from page_all_exist[OF this, of host did] obtain v2 where
      pv: "downloadBlobs_page env host did topDir cids ?v1 = (None, v2)"
      and fv: "files v2 = files v" and dv: "dirs v2 = dirs v"
      and tv: "trace v2 = trace ?v1 @ map (\<lambda>c. PrintBlobExists (Join env topDir c)) cids"
      by auto
    show ?thesis
    proof (cases "nxt \<noteq> None \<and> the nxt \<noteq> []")
      case False
      then show ?thesis
        apply (intro exI[of _ "NetListBlobs host cur did # map (\<lambda>c. PrintBlobExists (Join env topDir c)) cids"])
        using Suc ls pv fv tv by (auto simp: Let_def)
    next
      case True
      with Suc.prems(1) ls pg res
      have first: "downloadBlobs_loop n env host did topDir (the nxt) w2 = (Returned None, w')"
        by (auto simp: Let_def)
      have "\<forall>q. Stat w' q \<longrightarrow> Stat v2 q"
        using Suc.prems(2) Stat_cong[OF fv dv] by simp
      from Suc.IH[OF first this, of m'] obtain evs where
        e: "trace (snd (downloadBlobs_loop m' env host did topDir (the nxt) v2)) = trace v2 @ evs"
        and nf: "\<forall>e\<in>set evs. \<not> is_fetch e"
        and ff: "files (snd (downloadBlobs_loop m' env host did topDir (the nxt) v2)) = files v2"
        and rr: "n \<le> m' \<longrightarrow> fst (downloadBlobs_loop m' env host did topDir (the nxt) v2) = Returned None"
        by blast
      have unfold: "downloadBlobs_loop m env host did topDir cur v
          = downloadBlobs_loop m' env host did topDir (the nxt) v2"
        using Suc ls pv True by (auto simp: Let_def)
      show ?thesis
        apply (intro exI[of _ "NetListBlobs host cur did # map (\<lambda>c. PrintBlobExists (Join env topDir c)) cids @ evs"])
        using unfold e nf ff rr fv tv Suc by auto
    qed
  qed
qed


section \<open>The identifier source reads every line that is not blank\<close>

lemma Split_line_append:
  "CHR 0x0A \<notin> set l \<Longrightarrow> Split (l @ CHR 0x0A # r) = l # Split r"
  by (induction l) auto

lemma Split_line: "CHR 0x0A \<notin> set l \<Longrightarrow> Split l = [l]"
  by (induction l) auto

lemma Split_join_lines:
  "ls \<noteq> [] \<Longrightarrow> \<forall>l\<in>set ls. CHR 0x0A \<notin> set l \<Longrightarrow> Split (join_lines ls) = ls"
  by (induction ls rule: join_lines.induct) (auto simp: Split_line Split_line_append)

lemma collect_dids_filter:
  "collect_dids dids ls = dids @ filter (\<lambda>l. l \<noteq> []) (map TrimSpace ls)"
  by (induction ls arbitrary: dids) (auto simp: Let_def)

lemma TrimSpace_empty: "TrimSpace [] = []"
  by code_simp

text \<open>
  Claim C8. For a file whose lines are \<open>ls\<close> (the text between the line feeds),
  \<^verbatim>\<open>readDIDsFromFile\<close> returns one entry for every line that is not blank, in the order
  of the file and with every repetition: the entry of a line is the line without its
  surrounding white space, and a line is blank when nothing else is left of it. Where the
  lines that are not blank carry no surrounding white space, the result is exactly the
  list of those lines.
\<close>

theorem readDIDsFromFile_lines:
  assumes "files w filename = Some (join_lines ls)"
    and "\<forall>l\<in>set ls. CHR 0x0A \<notin> set l"
  shows "readDIDsFromFile w filename
           = Inr (map TrimSpace (filter (\<lambda>l. TrimSpace l \<noteq> []) ls))
    \<and> ((\<forall>l\<in>set ls. TrimSpace l \<noteq> [] \<longrightarrow> TrimSpace l = l) \<longrightarrow>
         readDIDsFromFile w filename = Inr (filter (\<lambda>l. TrimSpace l \<noteq> []) ls))"
proof -
  have split: "filter (\<lambda>l. l \<noteq> []) (map TrimSpace (Split (join_lines ls)))
      = filter (\<lambda>l. l \<noteq> []) (map TrimSpace ls)"
  proof (cases "ls = []")
    case True
    then show ?thesis by (simp add: TrimSpace_empty)
  next
    case False
    with assms(2) show ?thesis by (simp add: Split_join_lines)
  qed
  have "readDIDsFromFile w filename = Inr (filter (\<lambda>l. l \<noteq> []) (map TrimSpace ls))"
    using assms(1) split by (simp add: readDIDsFromFile_def ReadFile_def collect_dids_filter)
  then have main: "readDIDsFromFile w filename
      = Inr (map TrimSpace (filter (\<lambda>l. TrimSpace l \<noteq> []) ls))"
    by (simp add: filter_map comp_def)
  moreover have "map TrimSpace (filter (\<lambda>l. TrimSpace l \<noteq> []) ls)
      = filter (\<lambda>l. TrimSpace l \<noteq> []) ls"
    if "\<forall>l\<in>set ls. TrimSpace l \<noteq> [] \<longrightarrow> TrimSpace l = l"
    using that by (intro map_idI) simp
  ultimately show ?thesis by simp
qed

theorem readDIDsFromFile_lines_witness:
  "files dids_world ''dids.txt'' = Some (join_lines dids_lines)
   \<and> CHR 0x0A \<notin> set (concat dids_lines)
   \<and> readDIDsFromFile dids_world ''dids.txt''
       = Inr [''did:plc:alice'', ''did:plc:bob'', ''did:plc:alice'']"
proof -
  have f: "files dids_world ''dids.txt'' = Some (join_lines dids_lines)"
    by (simp add: dids_world_def files_def)
  have n: "\<forall>l\<in>set dids_lines. CHR 0x0A \<notin> set l"
    by (simp add: dids_lines_def)
  have v: "map TrimSpace (filter (\<lambda>l. TrimSpace l \<noteq> []) dids_lines)
      = [''did:plc:alice'', ''did:plc:bob'', ''did:plc:alice'']"
    by code_simp
  show ?thesis
    using f n v readDIDsFromFile_lines [OF f n] by simp
qed

section \<open>The blob synchronizer fetches a content hash at most once\<close>

lemma downloadBlobs_invariant:
  "\<exists>evs. trace (snd (downloadBlobs fuel env ident rp w)) = trace w @ evs
     \<and> (\<forall>q. Stat w q \<longrightarrow> Stat (snd (downloadBlobs fuel env ident rp w)) q)
     \<and> (\<forall>q b. files w q = Some b \<longrightarrow> files (snd (downloadBlobs fuel env ident rp w)) q = Some b)
     \<and> (\<forall>c. count_list evs (NetGetBlob (PDSEndpoint ident) c (DID ident)) \<le> 1)
     \<and> (\<forall>e\<in>set evs. is_fetch e \<longrightarrow>
           (\<exists>c. e = NetGetBlob (PDSEndpoint ident) c (DID ident)
              \<and> \<not> Stat w (Join env (Join env rp ''_blob'') c)))"
proof -
  let ?top = "Join env rp ''_blob''"
  let ?w1 = "emit (PrintWritingBlobs ?top) w"
  let ?w2 = "snd (MkdirAll env ?top ?w1)"
  have mk: "\<forall>q. Stat w q \<longrightarrow> Stat ?w2 q"
    using Stat_MkdirAll[of ?w1 _ env ?top] by simp
  show ?thesis
  proof (cases "PDSEndpoint ident = []")
    case True
    then have "snd (downloadBlobs fuel env ident rp w) = ?w2"
      by (simp add: downloadBlobs_def Let_def)
    then show ?thesis
      using mk by (intro exI[of _ "[PrintWritingBlobs ?top]"]) simp
  next
    case False
    obtain out w' where lp:
      "downloadBlobs_loop fuel env (PDSEndpoint ident) (DID ident) ?top [] ?w2 = (out, w')"
      by (cases "downloadBlobs_loop fuel env (PDSEndpoint ident) (DID ident) ?top [] ?w2")
    with False have eq: "snd (downloadBlobs fuel env ident rp w) = w'"
      by (simp add: downloadBlobs_def Let_def)
    from loop_invariant[OF lp] obtain evs where
      e: "trace w' = trace ?w2 @ evs"
      and m: "\<forall>q. Stat ?w2 q \<longrightarrow> Stat w' q"
      and k: "\<forall>q b. files ?w2 q = Some b \<longrightarrow> files w' q = Some b"
      and c: "\<forall>c. count_list evs (NetGetBlob (PDSEndpoint ident) c (DID ident)) \<le> 1"
      and s: "\<forall>e\<in>set evs. is_fetch e \<longrightarrow>
           (\<exists>c. e = NetGetBlob (PDSEndpoint ident) c (DID ident) \<and> \<not> Stat ?w2 (Join env ?top c))"
      by blast
    have s': "\<forall>e\<in>set evs. is_fetch e \<longrightarrow>
           (\<exists>c. e = NetGetBlob (PDSEndpoint ident) c (DID ident) \<and> \<not> Stat w (Join env ?top c))"
      using s mk by fastforce
    show ?thesis
      unfolding eq
      apply (rule exI[of _ "PrintWritingBlobs ?top # evs"])
      using e m k c s' mk by auto
  qed
qed

lemma downloadBlobs_rerun:
  assumes "downloadBlobs fuel env ident rp w = (Returned None, w')"
  shows "\<exists>evs. trace (snd (downloadBlobs fuel' env ident rp w')) = trace w' @ evs
     \<and> (\<forall>e\<in>set evs. \<not> is_fetch e)
     \<and> (fuel \<le> fuel' \<longrightarrow> fst (downloadBlobs fuel' env ident rp w') = Returned None)"
proof -
  let ?top = "Join env rp ''_blob''"
  let ?w2 = "snd (MkdirAll env ?top (emit (PrintWritingBlobs ?top) w))"
  let ?v2 = "snd (MkdirAll env ?top (emit (PrintWritingBlobs ?top) w'))"
  let ?h = "PDSEndpoint ident"
  from assms have host: "?h \<noteq> []"
    by (auto simp: downloadBlobs_def Let_def split: if_splits)
  with assms have first: "downloadBlobs_loop fuel env ?h (DID ident) ?top [] ?w2 = (Returned None, w')"
    by (simp add: downloadBlobs_def Let_def)
  have "\<forall>q. Stat w' q \<longrightarrow> Stat ?v2 q"
    using Stat_MkdirAll[of "emit (PrintWritingBlobs ?top) w'" _ env ?top] by simp
  from loop_rerun[OF first this, of fuel'] obtain evs where
    "trace (snd (downloadBlobs_loop fuel' env ?h (DID ident) ?top [] ?v2)) = trace ?v2 @ evs"
    "\<forall>e\<in>set evs. \<not> is_fetch e"
    "fuel \<le> fuel' \<longrightarrow> fst (downloadBlobs_loop fuel' env ?h (DID ident) ?top [] ?v2) = Returned None"
    by blast
  then show ?thesis
    using host
    by (intro exI[of _ "PrintWritingBlobs ?top # evs"]) (simp add: downloadBlobs_def Let_def)
qed

text \<open>
  Claim C4. In one run of the blob synchronizer, however long it runs and however it ends,
  the fetch of a content hash occurs at most once, and only for a hash whose file did not
  exist when the run started: the existence check comes before every fetch, and a hash that
  was written earlier in the run exists when it is listed again. After a run that returned
  without error, another run against the same remote state fetches nothing, and with at
  least as many listing calls allowed it returns without error too.
\<close>

theorem blob_sync_fetches_once:
  "(\<exists>evs. trace (snd (downloadBlobs fuel env ident rp w)) = trace w @ evs
      \<and> (\<forall>c. count_list evs (NetGetBlob (PDSEndpoint ident) c (DID ident)) \<le> 1)
      \<and> (\<forall>e\<in>set evs. is_fetch e \<longrightarrow>
            (\<exists>c. e = NetGetBlob (PDSEndpoint ident) c (DID ident)
               \<and> \<not> Stat w (Join env (Join env rp ''_blob'') c))))
   \<and> (downloadBlobs fuel env ident rp w = (Returned None, w') \<longrightarrow>
        (\<exists>evs. trace (snd (downloadBlobs fuel' env ident rp w')) = trace w' @ evs
           \<and> (\<forall>e\<in>set evs. \<not> is_fetch e)
           \<and> (fuel \<le> fuel' \<longrightarrow> fst (downloadBlobs fuel' env ident rp w') = Returned None)))"
  using downloadBlobs_invariant[of fuel env ident rp w] downloadBlobs_rerun[of fuel env ident rp w w' fuel']
  by blast

theorem blob_sync_fetches_once_witness:
  "fst (downloadBlobs 3 demo_env alice ''records/did:plc:alice'' empty_world) = Returned None
   \<and> filter is_fetch
        (trace (snd (downloadBlobs 3 demo_env alice ''records/did:plc:alice'' empty_world)))
       = [NetGetBlob ''pds.example'' ''blob1'' ''did:plc:alice'',
          NetGetBlob ''pds.example'' ''blob2'' ''did:plc:alice'',
          NetGetBlob ''pds.example'' ''blob3'' ''did:plc:alice'']
   \<and> filter is_fetch
        (trace (snd (downloadBlobs 3 demo_env alice ''records/did:plc:alice''
           (snd (downloadBlobs 3 demo_env alice ''records/did:plc:alice'' empty_world)))))
       = [NetGetBlob ''pds.example'' ''blob1'' ''did:plc:alice'',
          NetGetBlob ''pds.example'' ''blob2'' ''did:plc:alice'',
          NetGetBlob ''pds.example'' ''blob3'' ''did:plc:alice'']
   \<and> fst (downloadBlobs 3 demo_env alice ''records/did:plc:alice''
           (snd (downloadBlobs 3 demo_env alice ''records/did:plc:alice'' empty_world)))
       = Returned None"
proof -
  let ?w1 = "snd (downloadBlobs 3 demo_env alice ''records/did:plc:alice'' empty_world)"
  have r: "fst (downloadBlobs 3 demo_env alice ''records/did:plc:alice'' empty_world)
      = Returned None"
    by code_simp
  then have first: "downloadBlobs 3 demo_env alice ''records/did:plc:alice'' empty_world
      = (Returned None, ?w1)"
    by (simp add: prod_eq_iff)
  have again: "fst (downloadBlobs 3 demo_env alice ''records/did:plc:alice'' ?w1) = Returned None"
    using blob_sync_fetches_once
      [of 3 demo_env alice "''records/did:plc:alice''" empty_world ?w1 3] first
    by blast
  have f1: "filter is_fetch (trace ?w1)
       = [NetGetBlob ''pds.example'' ''blob1'' ''did:plc:alice'',
          NetGetBlob ''pds.example'' ''blob2'' ''did:plc:alice'',
          NetGetBlob ''pds.example'' ''blob3'' ''did:plc:alice'']"
    by code_simp
  have f2: "filter is_fetch
        (trace (snd (downloadBlobs 3 demo_env alice ''records/did:plc:alice'' ?w1)))
       = [NetGetBlob ''pds.example'' ''blob1'' ''did:plc:alice'',
          NetGetBlob ''pds.example'' ''blob2'' ''did:plc:alice'',
          NetGetBlob ''pds.example'' ''blob3'' ''did:plc:alice'']"
    by code_simp
  show ?thesis
    using r f1 f2 again by simp
qed

section \<open>The pagination loop and the continuation cursor\<close>

lemma page_append:
  "downloadBlobs_page env host did topDir (xs @ ys) w =
     (case downloadBlobs_page env host did topDir xs w of
        (Some err, w') \<Rightarrow> (Some err, w')
      | (None, w') \<Rightarrow> downloadBlobs_page env host did topDir ys w')"
  by (induction xs arbitrary: w) (auto simp: Let_def split: sum.splits prod.splits option.splits)

lemma page_fetch_fails:
  assumes "downloadBlobs_page env host did topDir pre w = (None, w2)"
    and "\<not> Stat w2 (Join env topDir c)"
    and "SyncGetBlob env host c did = Inl err"
  shows "downloadBlobs_page env host did topDir (pre @ c # post) w
           = (Some err, emit (NetGetBlob host c did) w2)"
  using assms by (simp add: page_append Let_def)

lemma loop_fetch_fails:
  assumes "SyncListBlobs env host cursor did = Inr (pre @ c # post, next_cursor)"
    and "downloadBlobs_page env host did topDir pre (emit (NetListBlobs host cursor did) w) = (None, w2)"
    and "\<not> Stat w2 (Join env topDir c)"
    and "SyncGetBlob env host c did = Inl err"
  shows "downloadBlobs_loop (Suc n) env host did topDir cursor w
           = (Returned (Some err), emit (NetGetBlob host c did) w2)"
  using assms(1) page_fetch_fails[OF assms(2-4)] by (simp add: Let_def)





section \<open>The events of record extraction\<close>

lemma exported_append [simp]: "exported (xs @ ys) = exported xs @ exported ys"
  by (induction xs rule: exported.induct) auto

lemma WriteFile_shape:
  "\<exists>res e. (\<forall>w. fst (WriteFile env p d w) = res \<and> trace (snd (WriteFile env p d w)) = trace w @ [e])
     \<and> (write_fault env p = NoFault \<longrightarrow> res = None \<and> e = FileWritten p d)
     \<and> (write_fault env p \<noteq> NoFault \<longrightarrow> res \<noteq> None \<and> e = FileWriteFailed p)"
  by (cases "write_fault env p") (auto simp: WriteFile_def)

lemma callback_shape:
  "\<exists>res evs.
     (\<forall>w. fst (record_callback env r rp k v w) = res
        \<and> trace (snd (record_callback env r rp k v w)) = trace w @ evs)
     \<and> exported evs =
         (case record_json env r k of
            None \<Rightarrow> []
          | Some j \<Rightarrow> if write_fault env (record_file env rp k) = NoFault
                      then [(record_file env rp k, j)] else [])
     \<and> (res = None \<longleftrightarrow> record_json env r k = None \<or> write_fault env (record_file env rp k) = NoFault)
     \<and> filter is_warning evs = warnings_of env r [(k, v)]"
proof (cases "GetRecord r k")
  case (Inl err)
  then show ?thesis
    by (intro exI[of _ None] exI[of _ "[WarnGetRecord k err]"])
       (simp add: record_callback_def record_json_def)
next
  case (Inr cr)
  obtain c rec where cr: "cr = (c, rec)" by (cases cr)
  show ?thesis
  proof (cases "MarshalIndent env rec")
    case (Inl err)
    with Inr cr show ?thesis
      by (intro exI[of _ None]
            exI[of _ "[PrintRecordPath (Join env rp k), WarnMarshalRecord k err]"])
         (simp add: record_callback_def record_json_def Let_def)
  next
    case (Inr j)
    from WriteFile_shape[of env "record_file env rp k" j] obtain res e where
      a: "\<forall>w. fst (WriteFile env (record_file env rp k) j w) = res
            \<and> trace (snd (WriteFile env (record_file env rp k) j w)) = trace w @ [e]"
      and b: "write_fault env (record_file env rp k) = NoFault \<longrightarrow> res = None \<and> e = FileWritten (record_file env rp k) j"
      and c: "write_fault env (record_file env rp k) \<noteq> NoFault \<longrightarrow> res \<noteq> None \<and> e = FileWriteFailed (record_file env rp k)"
      by blast
    show ?thesis
      apply (intro exI[of _ res] exI[of _ "[PrintRecordPath (Join env rp k), e]"])
      using \<open>GetRecord r k = Inr cr\<close> cr Inr a b c
      by (cases "write_fault env (record_file env rp k) = NoFault")
         (auto simp: record_callback_def record_json_def Let_def record_file_def)
  qed
qed

lemma walk_leaves_step:
  "fst (cb k v w) = None \<Longrightarrow> walk_leaves ((k, v) # rest) werr cb w = walk_leaves rest werr cb (snd (cb k v w))"
  "fst (cb k v w) = Some err \<Longrightarrow> walk_leaves ((k, v) # rest) werr cb w = (Some err, snd (cb k v w))"
  by (cases "cb k v w"; simp)+

lemma walk_shape:
  "\<exists>res evs ks.
     (\<forall>w. fst (walk_leaves ls werr (record_callback env r rp) w) = res
        \<and> trace (snd (walk_leaves ls werr (record_callback env r rp) w)) = trace w @ evs)
     \<and> subseq ks (map fst ls)
     \<and> exported evs = map (\<lambda>k. (record_file env rp k, the (record_json env r k))) ks
     \<and> ((\<forall>(k, v)\<in>set ls. write_fault env (record_file env rp k) = NoFault) \<longrightarrow>
          res = werr \<and> exported evs = exports_of env r rp ls
          \<and> filter is_warning evs = warnings_of env r ls)"
proof (induction ls)
  case Nil
  show ?case by (intro exI[of _ werr] exI[of _ "[]"]) simp
next
  case (Cons kv ls)
  obtain k v where kv: "kv = (k, v)" by (cases kv)
  from Cons.IH obtain res evs ks where
    ih1: "\<forall>w. fst (walk_leaves ls werr (record_callback env r rp) w) = res
        \<and> trace (snd (walk_leaves ls werr (record_callback env r rp) w)) = trace w @ evs"
    and ih2: "subseq ks (map fst ls)"
    and ih3: "exported evs = map (\<lambda>k. (record_file env rp k, the (record_json env r k))) ks"
    and ih4: "(\<forall>(k, v)\<in>set ls. write_fault env (record_file env rp k) = NoFault) \<longrightarrow>
          res = werr \<and> exported evs = exports_of env r rp ls
          \<and> filter is_warning evs = warnings_of env r ls"
    by blast
  from callback_shape[of env r rp k v] obtain res1 evs1 where
    c1: "\<forall>w. fst (record_callback env r rp k v w) = res1
        \<and> trace (snd (record_callback env r rp k v w)) = trace w @ evs1"
    and c2: "exported evs1 =
         (case record_json env r k of
            None \<Rightarrow> []
          | Some j \<Rightarrow> if write_fault env (record_file env rp k) = NoFault
                      then [(record_file env rp k, j)] else [])"
    and c3: "res1 = None \<longleftrightarrow> record_json env r k = None \<or> write_fault env (record_file env rp k) = NoFault"
    and c4: "filter is_warning evs1 = warnings_of env r [(k, v)]"
    by blast
  have w4: "warnings_of env r ((k, v) # ls) = warnings_of env r [(k, v)] @ warnings_of env r ls"
    by (simp split: sum.splits prod.splits)
  show ?case
  proof (cases res1)
    case (Some err)
    with c1 have "\<forall>w. walk_leaves (kv # ls) werr (record_callback env r rp) w
        = (Some err, snd (record_callback env r rp k v w))"
      by (simp add: kv walk_leaves_step del: walk_leaves.simps)
    moreover from Some c3 have "write_fault env (record_file env rp k) \<noteq> NoFault" by simp
    moreover from Some c2 c3 have "exported evs1 = []" by (auto split: option.splits)
    ultimately show ?thesis
      apply (intro exI[of _ "Some err"] exI[of _ evs1] exI[of _ "[]"])
      using c1 kv by auto
  next
    case None
    with c1 have st: "\<forall>w. walk_leaves (kv # ls) werr (record_callback env r rp) w
        = walk_leaves ls werr (record_callback env r rp) (snd (record_callback env r rp k v w))"
      by (simp add: kv walk_leaves_step del: walk_leaves.simps)
    show ?thesis
    proof (cases "record_json env r k")
      case None
      with c2 have "exported evs1 = []" by simp
      then show ?thesis
        apply (intro exI[of _ res] exI[of _ "evs1 @ evs"] exI[of _ ks])
        using st c1 ih1 ih2 ih3 ih4 c4 w4 None kv by (auto simp: subseq_Cons')
    next
      case (Some j)
      with c3 \<open>res1 = None\<close> have nf: "write_fault env (record_file env rp k) = NoFault" by simp
      with c2 Some have "exported evs1 = [(record_file env rp k, j)]" by simp
      then show ?thesis
        apply (intro exI[of _ res] exI[of _ "evs1 @ evs"] exI[of _ "k # ks"])
        using st c1 ih1 ih2 ih3 ih4 c4 w4 Some kv by auto
    qed
  qed
qed

lemma subseq_sorted_wrt: "subseq ks xs \<Longrightarrow> sorted_wrt P xs \<Longrightarrow> sorted_wrt P ks"
proof (induction ks xs rule: list_emb.induct)
  case (list_emb_Nil ys)
  then show ?case by simp
next
  case (list_emb_Cons xs ys y)
  then show ?case by simp
next
  case (list_emb_Cons2 x y xs ys)
  then have "set xs \<subseteq> set ys" by (auto dest: list_emb_set)
  with list_emb_Cons2 show ?case by auto
qed

lemma unpackRecords_events:
  assumes "ReadRepoFromCar env fi = Inr r"
  obtains res evs where
    "\<forall>w. ReadFile w carPath = Inr fi \<longrightarrow>
        fst (unpackRecords env carPath rp w) = res
        \<and> trace (snd (unpackRecords env carPath rp w)) = trace w @ evs"
    and "\<forall>err. MarshalIndent env (SignedCommit r) = Inl err \<longrightarrow>
          res = Some err \<and> evs = [PrintWritingOutput rp]"
    and "\<forall>cj. MarshalIndent env (SignedCommit r) = Inr cj
             \<and> write_fault env (commit_file env rp) \<noteq> NoFault \<longrightarrow>
          res \<noteq> None \<and> evs = [PrintWritingOutput rp, FileWriteFailed (commit_file env rp)]"
    and "\<forall>cj. MarshalIndent env (SignedCommit r) = Inr cj
             \<and> write_fault env (commit_file env rp) = NoFault \<longrightarrow>
          (\<exists>rest ks. evs = PrintWritingOutput rp # FileWritten (commit_file env rp) cj # rest
             \<and> subseq ks (map fst (leaves r))
             \<and> exported rest = map (\<lambda>k. (record_file env rp k, the (record_json env r k))) ks
             \<and> ((\<forall>(k, v)\<in>set (leaves r). write_fault env (record_file env rp k) = NoFault) \<longrightarrow>
                  res = walk_error r \<and> exported rest = exports_of env r rp (leaves r)
                  \<and> filter is_warning rest = warnings_of env r (leaves r)))"
proof (cases "MarshalIndent env (SignedCommit r)")
  case (Inl err)
  with assms show ?thesis
    by (intro that[of "Some err" "[PrintWritingOutput rp]"])
       (simp_all add: unpackRecords_def Let_def)
next
  case (Inr cj)
  from WriteFile_shape[of env "commit_file env rp" cj] obtain res e where
    a: "\<forall>w. fst (WriteFile env (commit_file env rp) cj w) = res
          \<and> trace (snd (WriteFile env (commit_file env rp) cj w)) = trace w @ [e]"
    and b: "write_fault env (commit_file env rp) = NoFault \<longrightarrow> res = None \<and> e = FileWritten (commit_file env rp) cj"
    and c: "write_fault env (commit_file env rp) \<noteq> NoFault \<longrightarrow> res \<noteq> None \<and> e = FileWriteFailed (commit_file env rp)"
    by blast
  let ?w2 = "\<lambda>w. snd (MkdirAll env (Dir env (Join env rp ''_commit'')) (emit (PrintWritingOutput rp) w))"
  let ?w3 = "\<lambda>w. snd (WriteFile env (commit_file env rp) cj (?w2 w))"
  have t3: "trace (?w3 w) = trace w @ [PrintWritingOutput rp, e]" for w
    using a by simp
  have wf: "\<exists>y. WriteFile env (commit_file env rp) cj (?w2 w) = (res, y) \<and> ?w3 w = y" for w
    using a by (cases "WriteFile env (commit_file env rp) cj (?w2 w)") (metis fst_conv snd_conv)
  show ?thesis
  proof (cases "write_fault env (commit_file env rp) = NoFault")
    case False
    with c obtain err where res: "res = Some err" and e: "e = FileWriteFailed (commit_file env rp)"
      by auto
    have "unpackRecords env carPath rp w = (Some err, ?w3 w)" if "ReadFile w carPath = Inr fi" for w
    proof -
      from wf[of w] obtain y where "WriteFile env (commit_file env rp) cj (?w2 w) = (res, y)"
        and "?w3 w = y" by blast
      with that assms Inr res show ?thesis
        by (simp add: unpackRecords_def Let_def commit_file_def)
    qed
    then show ?thesis
      using t3 e Inr False
      by (intro that[of "Some err" "[PrintWritingOutput rp, FileWriteFailed (commit_file env rp)]"])
         simp_all
  next
    case True
    with b have res: "res = None" and e: "e = FileWritten (commit_file env rp) cj" by auto
    have un: "unpackRecords env carPath rp w
        = walk_leaves (leaves r) (walk_error r) (record_callback env r rp) (?w3 w)"
      if "ReadFile w carPath = Inr fi" for w
    proof -
      from wf[of w] obtain y where "WriteFile env (commit_file env rp) cj (?w2 w) = (res, y)"
        and "?w3 w = y" by blast
      with that assms Inr res show ?thesis
        by (simp add: unpackRecords_def Let_def commit_file_def ForEach_def)
    qed
    from walk_shape[of "leaves r" "walk_error r" env r rp] obtain wres rest ks where
      w1: "\<forall>w. fst (walk_leaves (leaves r) (walk_error r) (record_callback env r rp) w) = wres
        \<and> trace (snd (walk_leaves (leaves r) (walk_error r) (record_callback env r rp) w)) = trace w @ rest"
      and w2: "subseq ks (map fst (leaves r))"
      and w3: "exported rest = map (\<lambda>k. (record_file env rp k, the (record_json env r k))) ks"
      and w4: "(\<forall>(k, v)\<in>set (leaves r). write_fault env (record_file env rp k) = NoFault) \<longrightarrow>
          wres = walk_error r \<and> exported rest = exports_of env r rp (leaves r)
          \<and> filter is_warning rest = warnings_of env r (leaves r)"
      by blast
    have p1: "\<forall>w. ReadFile w carPath = Inr fi \<longrightarrow>
        fst (unpackRecords env carPath rp w) = wres
        \<and> trace (snd (unpackRecords env carPath rp w))
            = trace w @ PrintWritingOutput rp # FileWritten (commit_file env rp) cj # rest"
      using un w1 t3 e by simp
    have p4: "\<exists>rest' ks. PrintWritingOutput rp # FileWritten (commit_file env rp) cj # rest
               = PrintWritingOutput rp # FileWritten (commit_file env rp) cj # rest'
             \<and> subseq ks (map fst (leaves r))
             \<and> exported rest' = map (\<lambda>k. (record_file env rp k, the (record_json env r k))) ks
             \<and> ((\<forall>(k, v)\<in>set (leaves r). write_fault env (record_file env rp k) = NoFault) \<longrightarrow>
                  wres = walk_error r \<and> exported rest' = exports_of env r rp (leaves r)
                  \<and> filter is_warning rest' = warnings_of env r (leaves r))"
      using w2 w3 w4 by (intro exI[of _ rest] exI[of _ ks]) simp
    show ?thesis
      using p1 p4 Inr True
      by (intro that[of wres "PrintWritingOutput rp # FileWritten (commit_file env rp) cj # rest"])
         simp_all
  qed
qed

text \<open>
  Claim C3. Whatever the archive, the faults and the world, the effects of
  \<^verbatim>\<open>unpackRecords\<close> take one of four shapes: nothing (the archive cannot be opened or
  decoded); the announcement alone (the commit cannot be serialized); the announcement and
  a failed write of the commit file; or the announcement, the successful write of the commit
  file with the JSON of the signed commit, and then everything else. Every effect of the
  record callback, so every record export, is in that last part: after the commit export.
\<close>

theorem commit_export_precedes_records:
  "\<exists>evs. trace (snd (unpackRecords env carPath rp w)) = trace w @ evs
     \<and> (evs = [] \<or> evs = [PrintWritingOutput rp]
        \<or> evs = [PrintWritingOutput rp, FileWriteFailed (commit_file env rp)]
        \<or> (\<exists>fi r cj rest. ReadFile w carPath = Inr fi \<and> ReadRepoFromCar env fi = Inr r
             \<and> MarshalIndent env (SignedCommit r) = Inr cj
             \<and> evs = PrintWritingOutput rp # FileWritten (commit_file env rp) cj # rest))"
proof (cases "ReadFile w carPath")
  case (Inl err)
  then show ?thesis by (simp add: unpackRecords_def)
next
  case (Inr fi)
  show ?thesis
  proof (cases "ReadRepoFromCar env fi")
    case (Inl err)
    with \<open>ReadFile w carPath = Inr fi\<close> show ?thesis by (simp add: unpackRecords_def)
  next
    case r: (Inr r)
    obtain res evs where
      a: "\<forall>w. ReadFile w carPath = Inr fi \<longrightarrow>
        fst (unpackRecords env carPath rp w) = res
        \<and> trace (snd (unpackRecords env carPath rp w)) = trace w @ evs"
      and m: "\<forall>err. MarshalIndent env (SignedCommit r) = Inl err \<longrightarrow>
          res = Some err \<and> evs = [PrintWritingOutput rp]"
      and f: "\<forall>cj. MarshalIndent env (SignedCommit r) = Inr cj
             \<and> write_fault env (commit_file env rp) \<noteq> NoFault \<longrightarrow>
          res \<noteq> None \<and> evs = [PrintWritingOutput rp, FileWriteFailed (commit_file env rp)]"
      and k: "\<forall>cj. MarshalIndent env (SignedCommit r) = Inr cj
             \<and> write_fault env (commit_file env rp) = NoFault \<longrightarrow>
          (\<exists>rest ks. evs = PrintWritingOutput rp # FileWritten (commit_file env rp) cj # rest
             \<and> subseq ks (map fst (leaves r))
             \<and> exported rest = map (\<lambda>k. (record_file env rp k, the (record_json env r k))) ks
             \<and> ((\<forall>(k, v)\<in>set (leaves r). write_fault env (record_file env rp k) = NoFault) \<longrightarrow>
                  res = walk_error r \<and> exported rest = exports_of env r rp (leaves r)
                  \<and> filter is_warning rest = warnings_of env r (leaves r)))"
      by (rule unpackRecords_events[OF r, of carPath rp])
    from a Inr have t: "trace (snd (unpackRecords env carPath rp w)) = trace w @ evs" by simp
    show ?thesis
    proof (cases "MarshalIndent env (SignedCommit r)")
      case (Inl err)
      with m t show ?thesis by auto
    next
      case cj: (Inr cj)
      show ?thesis
      proof (cases "write_fault env (commit_file env rp) = NoFault")
        case True
        with k cj obtain rest where
          "evs = PrintWritingOutput rp # FileWritten (commit_file env rp) cj # rest" by blast
        with t Inr r cj show ?thesis by auto
      next
        case False
        with f cj t show ?thesis by auto
      qed
    qed
  qed
qed

theorem commit_export_precedes_records_witness:
  "take 2 (trace (snd (unpackRecords demo_env ''cars/did:plc:alice.car''
       ''records/did:plc:alice'' car_world)))
     = [PrintWritingOutput ''records/did:plc:alice'',
        FileWritten ''records/did:plc:alice/_commit.json'' ''{commit of alice}'']
   \<and> exported (trace (snd (unpackRecords demo_env ''cars/did:plc:alice.car''
         ''records/did:plc:alice'' car_world)))
       = [(''records/did:plc:alice/_commit.json'', ''{commit of alice}''),
          (''records/did:plc:alice/post/1.json'', ''{record post/1}''),
          (''records/did:plc:alice/post/3.json'', ''{record post/3}'')]"
proof -
  have a: "take 2 (trace (snd (unpackRecords demo_env ''cars/did:plc:alice.car''
       ''records/did:plc:alice'' car_world)))
     = [PrintWritingOutput ''records/did:plc:alice'',
        FileWritten ''records/did:plc:alice/_commit.json'' ''{commit of alice}'']"
    by code_simp
  have b: "exported (trace (snd (unpackRecords demo_env ''cars/did:plc:alice.car''
         ''records/did:plc:alice'' car_world)))
       = [(''records/did:plc:alice/_commit.json'', ''{commit of alice}''),
          (''records/did:plc:alice/post/1.json'', ''{record post/1}''),
          (''records/did:plc:alice/post/3.json'', ''{record post/3}'')]"
    by code_simp
  show ?thesis
    using commit_export_precedes_records
      [where env = demo_env and carPath = "''cars/did:plc:alice.car''"
         and rp = "''records/did:plc:alice''" and w = car_world] a b
    by simp
qed

text \<open>
  Claim C6, as the code has it. For an archive that decodes, the events of
  \<^verbatim>\<open>unpackRecords\<close> are the same list \<open>evs\<close> from every world that holds this archive,
  and the files they write are: none, or the commit file followed by the record files of a
  subsequence \<open>ks\<close> of the walked keys, in the order in which \<^verbatim>\<open>ForEach\<close> hands them to
  the callback. The program neither sorts nor checks the keys: \<open>ks\<close> is strictly ascending
  and without duplicates whenever the walk is.
\<close>

theorem records_exported_in_walk_order:
  assumes "ReadRepoFromCar env fi = Inr r"
  shows "\<exists>evs ks.
     (\<forall>w. ReadFile w carPath = Inr fi \<longrightarrow>
        trace (snd (unpackRecords env carPath rp w)) = trace w @ evs)
     \<and> subseq ks (map fst (leaves r))
     \<and> (exported evs = []
          \<or> map fst (exported evs) = commit_file env rp # map (record_file env rp) ks)
     \<and> (sorted_wrt (<) (map fst (leaves r)) \<longrightarrow> sorted_wrt (<) ks \<and> distinct ks)"
proof -
  obtain res evs where
    a: "\<forall>w. ReadFile w carPath = Inr fi \<longrightarrow>
      fst (unpackRecords env carPath rp w) = res
      \<and> trace (snd (unpackRecords env carPath rp w)) = trace w @ evs"
    and m: "\<forall>err. MarshalIndent env (SignedCommit r) = Inl err \<longrightarrow>
        res = Some err \<and> evs = [PrintWritingOutput rp]"
    and f: "\<forall>cj. MarshalIndent env (SignedCommit r) = Inr cj
           \<and> write_fault env (commit_file env rp) \<noteq> NoFault \<longrightarrow>
        res \<noteq> None \<and> evs = [PrintWritingOutput rp, FileWriteFailed (commit_file env rp)]"
    and k: "\<forall>cj. MarshalIndent env (SignedCommit r) = Inr cj
           \<and> write_fault env (commit_file env rp) = NoFault \<longrightarrow>
        (\<exists>rest ks. evs = PrintWritingOutput rp # FileWritten (commit_file env rp) cj # rest
           \<and> subseq ks (map fst (leaves r))
           \<and> exported rest = map (\<lambda>k. (record_file env rp k, the (record_json env r k))) ks
           \<and> ((\<forall>(k, v)\<in>set (leaves r). write_fault env (record_file env rp k) = NoFault) \<longrightarrow>
                res = walk_error r \<and> exported rest = exports_of env r rp (leaves r)
                \<and> filter is_warning rest = warnings_of env r (leaves r)))"
    by (rule unpackRecords_events[OF assms, of carPath rp])
  from a have tr: "\<forall>w. ReadFile w carPath = Inr fi \<longrightarrow>
      trace (snd (unpackRecords env carPath rp w)) = trace w @ evs"
    by simp
  have "\<exists>ks. subseq ks (map fst (leaves r))
     \<and> (exported evs = []
          \<or> map fst (exported evs) = commit_file env rp # map (record_file env rp) ks)"
  proof (cases "MarshalIndent env (SignedCommit r)")
    case (Inl err)
    with m have "evs = [PrintWritingOutput rp]" by simp
    then have "exported evs = []" by simp
    then show ?thesis by (intro exI[of _ "[]"]) simp
  next
    case cj: (Inr cj)
    show ?thesis
    proof (cases "write_fault env (commit_file env rp) = NoFault")
      case False
      with f cj have "evs = [PrintWritingOutput rp, FileWriteFailed (commit_file env rp)]"
        by simp
      then have "exported evs = []" by simp
      then show ?thesis by (intro exI[of _ "[]"]) simp
    next
      case True
      with k cj obtain rest ks where
        ev: "evs = PrintWritingOutput rp # FileWritten (commit_file env rp) cj # rest"
        and sub: "subseq ks (map fst (leaves r))"
        and ex: "exported rest = map (\<lambda>k. (record_file env rp k, the (record_json env r k))) ks"
        by blast
      from ev ex have "map fst (exported evs) = commit_file env rp # map (record_file env rp) ks"
        by (simp add: comp_def)
      with sub show ?thesis by (intro exI[of _ ks]) simp
    qed
  qed
  then obtain ks where sub: "subseq ks (map fst (leaves r))"
    and ex: "exported evs = []
          \<or> map fst (exported evs) = commit_file env rp # map (record_file env rp) ks"
    by (elim exE conjE) (rule that)
  have srt: "sorted_wrt (<) (map fst (leaves r)) \<longrightarrow> sorted_wrt (<) ks \<and> distinct ks"
  proof
    assume "sorted_wrt (<) (map fst (leaves r))"
    with sub have "sorted_wrt (<) ks" by (rule subseq_sorted_wrt)
    then show "sorted_wrt (<) ks \<and> distinct ks" by (simp add: strict_sorted_iff)
  qed
  show ?thesis
    by (intro exI[of _ evs] exI[of _ ks] conjI tr sub ex srt)
qed

theorem records_exported_in_walk_order_witness:
  "ReadRepoFromCar demo_env ''car of did:plc:alice'' = Inr alice_repo
   \<and> sorted_wrt (<) (map fst (leaves alice_repo))
   \<and> map fst (leaves alice_repo) = [''post/1'', ''post/2'', ''post/3'']
   \<and> map fst (exported (trace (snd (unpackRecords demo_env ''cars/did:plc:alice.car''
         ''records/did:plc:alice'' car_world))))
       = [''records/did:plc:alice/_commit.json'', ''records/did:plc:alice/post/1.json'',
          ''records/did:plc:alice/post/3.json'']"
proof -
  have dec: "ReadRepoFromCar demo_env ''car of did:plc:alice'' = Inr alice_repo"
    by (simp add: demo_env_def)
  have srt: "sorted_wrt (<) (map fst (leaves alice_repo))"
    by code_simp
  have ks: "map fst (leaves alice_repo) = [''post/1'', ''post/2'', ''post/3'']"
    by (simp add: alice_repo_def)
  have ex: "map fst (exported (trace (snd (unpackRecords demo_env ''cars/did:plc:alice.car''
         ''records/did:plc:alice'' car_world))))
       = [''records/did:plc:alice/_commit.json'', ''records/did:plc:alice/post/1.json'',
          ''records/did:plc:alice/post/3.json'']"
    by code_simp
  note inst = records_exported_in_walk_order
    [OF dec, where carPath = "''cars/did:plc:alice.car''" and rp = "''records/did:plc:alice''"]
  from inst dec srt ks ex show ?thesis by (intro conjI)
qed

text \<open>
  The claim as it is written promises the ascending order of every archive that decodes.
  Here the decoder returns a repository whose walk hands out \<open>post/2\<close> before \<open>post/1\<close>:
  \<^verbatim>\<open>unpackRecords\<close> returns nil and writes the record files in that order.
\<close>

theorem unsorted_walk_counterexample:
  "ReadRepoFromCar unsorted_env ''car of did:plc:alice'' = Inr unsorted_repo
   \<and> fst (unpackRecords unsorted_env ''cars/did:plc:alice.car'' ''records/did:plc:alice''
         car_world) = None
   \<and> map fst (exported (trace (snd (unpackRecords unsorted_env ''cars/did:plc:alice.car''
         ''records/did:plc:alice'' car_world))))
       = [''records/did:plc:alice/_commit.json'', ''records/did:plc:alice/post/2.json'',
          ''records/did:plc:alice/post/1.json'']
   \<and> ''post/1'' < ''post/2''"
proof -
  have a: "ReadRepoFromCar unsorted_env ''car of did:plc:alice'' = Inr unsorted_repo"
    by (simp add: unsorted_env_def)
  have b: "fst (unpackRecords unsorted_env ''cars/did:plc:alice.car'' ''records/did:plc:alice''
         car_world) = None"
    by code_simp
  have c: "map fst (exported (trace (snd (unpackRecords unsorted_env ''cars/did:plc:alice.car''
         ''records/did:plc:alice'' car_world))))
       = [''records/did:plc:alice/_commit.json'', ''records/did:plc:alice/post/2.json'',
          ''records/did:plc:alice/post/1.json'']"
    by code_simp
  have d: "''post/1'' < ''post/2''"
    by code_simp
  from a b c d show ?thesis by (intro conjI)
qed

text \<open>
  Claim C1. When the archive decodes, the commit is exported and no write of a record file
  fails, the records that fail to resolve or to serialize change nothing for the others:
  \<^verbatim>\<open>unpackRecords\<close> returns what the walk returns (nil when the walk completes), the files
  written are the commit file and then the file of every record that resolves and
  serializes, in the order of the walk, and the warnings printed are exactly one for each
  record that does not.
\<close>

theorem failed_record_is_skipped:
  assumes "ReadFile w carPath = Inr fi"
    and "ReadRepoFromCar env fi = Inr r"
    and "MarshalIndent env (SignedCommit r) = Inr cj"
    and "write_fault env (commit_file env rp) = NoFault"
    and "\<forall>(k, v)\<in>set (leaves r). write_fault env (record_file env rp k) = NoFault"
  shows "fst (unpackRecords env carPath rp w) = walk_error r
    \<and> (\<exists>evs. trace (snd (unpackRecords env carPath rp w)) = trace w @ evs
          \<and> exported evs = (commit_file env rp, cj) # exports_of env r rp (leaves r)
          \<and> filter is_warning evs = warnings_of env r (leaves r))"
proof -
  obtain res evs where
    a: "\<forall>w. ReadFile w carPath = Inr fi \<longrightarrow>
      fst (unpackRecords env carPath rp w) = res
      \<and> trace (snd (unpackRecords env carPath rp w)) = trace w @ evs"
    and m: "\<forall>err. MarshalIndent env (SignedCommit r) = Inl err \<longrightarrow>
        res = Some err \<and> evs = [PrintWritingOutput rp]"
    and f: "\<forall>cj. MarshalIndent env (SignedCommit r) = Inr cj
           \<and> write_fault env (commit_file env rp) \<noteq> NoFault \<longrightarrow>
        res \<noteq> None \<and> evs = [PrintWritingOutput rp, FileWriteFailed (commit_file env rp)]"
    and k: "\<forall>cj. MarshalIndent env (SignedCommit r) = Inr cj
           \<and> write_fault env (commit_file env rp) = NoFault \<longrightarrow>
        (\<exists>rest ks. evs = PrintWritingOutput rp # FileWritten (commit_file env rp) cj # rest
           \<and> subseq ks (map fst (leaves r))
           \<and> exported rest = map (\<lambda>k. (record_file env rp k, the (record_json env r k))) ks
           \<and> ((\<forall>(k, v)\<in>set (leaves r). write_fault env (record_file env rp k) = NoFault) \<longrightarrow>
                res = walk_error r \<and> exported rest = exports_of env r rp (leaves r)
                \<and> filter is_warning rest = warnings_of env r (leaves r)))"
    by (rule unpackRecords_events[OF assms(2), of carPath rp])
  from k assms(3,4,5) obtain rest where
    "evs = PrintWritingOutput rp # FileWritten (commit_file env rp) cj # rest"
    "res = walk_error r" "exported rest = exports_of env r rp (leaves r)"
    "filter is_warning rest = warnings_of env r (leaves r)"
    by blast
  with a assms(1) show ?thesis by simp
qed

theorem failed_record_is_skipped_witness:
  "ReadFile car_world ''cars/did:plc:alice.car'' = Inr ''car of did:plc:alice''
   \<and> ReadRepoFromCar demo_env ''car of did:plc:alice'' = Inr alice_repo
   \<and> GetRecord alice_repo ''post/2'' = Inl ''block not found''
   \<and> fst (unpackRecords demo_env ''cars/did:plc:alice.car'' ''records/did:plc:alice'' car_world)
       = None
   \<and> exported (trace (snd (unpackRecords demo_env ''cars/did:plc:alice.car''
         ''records/did:plc:alice'' car_world)))
       = [(''records/did:plc:alice/_commit.json'', ''{commit of alice}''),
          (''records/did:plc:alice/post/1.json'', ''{record post/1}''),
          (''records/did:plc:alice/post/3.json'', ''{record post/3}'')]
   \<and> filter is_warning (trace (snd (unpackRecords demo_env ''cars/did:plc:alice.car''
         ''records/did:plc:alice'' car_world)))
       = [WarnGetRecord ''post/2'' ''block not found'']"
proof -
  have rd: "ReadFile car_world ''cars/did:plc:alice.car'' = Inr ''car of did:plc:alice''"
    by (simp add: ReadFile_def car_world_def files_def)
  have dec: "ReadRepoFromCar demo_env ''car of did:plc:alice'' = Inr alice_repo"
    by (simp add: demo_env_def)
  have cj: "MarshalIndent demo_env (SignedCommit alice_repo) = Inr ''{commit of alice}''"
    by (simp add: demo_env_def alice_repo_def)
  have nf: "write_fault demo_env (commit_file demo_env ''records/did:plc:alice'') = NoFault"
    by (simp add: demo_env_def)
  have nfs: "\<forall>(k, v)\<in>set (leaves alice_repo).
      write_fault demo_env (record_file demo_env ''records/did:plc:alice'' k) = NoFault"
    by (simp add: demo_env_def)
  have g: "GetRecord alice_repo ''post/2'' = Inl ''block not found''"
    by (simp add: alice_repo_def)
  have c: "commit_file demo_env ''records/did:plc:alice'' = ''records/did:plc:alice/_commit.json''"
    by (simp add: commit_file_def demo_env_def)
  have x: "exports_of demo_env alice_repo ''records/did:plc:alice'' (leaves alice_repo)
      = [(''records/did:plc:alice/post/1.json'', ''{record post/1}''),
         (''records/did:plc:alice/post/3.json'', ''{record post/3}'')]"
    by code_simp
  have y: "warnings_of demo_env alice_repo (leaves alice_repo)
      = [WarnGetRecord ''post/2'' ''block not found'']"
    by code_simp
  have t: "trace car_world = []"
    by (simp add: car_world_def)
  show ?thesis
    using failed_record_is_skipped [OF rd dec cj nf nfs] rd dec g c x y t
    by (auto simp: alice_repo_def)
qed

section \<open>The pipeline of one identifier and the batch\<close>

lemma processing_of_append [simp]: "processing_of (xs @ ys) = processing_of xs @ processing_of ys"
  by (induction xs rule: processing_of.induct) auto

lemma error_reports_append [simp]: "error_reports (xs @ ys) = error_reports xs @ error_reports ys"
  by (induction xs rule: error_reports.induct) auto

lemma quiet_processing: "\<forall>e\<in>set evs. quiet e \<Longrightarrow> processing_of evs = []"
  by (induction evs rule: processing_of.induct) auto

lemma quiet_reports: "\<forall>e\<in>set evs. quiet e \<Longrightarrow> error_reports evs = []"
  by (induction evs rule: error_reports.induct) auto

lemma WriteFile_quiet:
  "\<exists>e. trace (snd (WriteFile env p d w)) = trace w @ [e] \<and> quiet e"
  by (simp add: WriteFile_trace)

lemma callback_quiet:
  "\<exists>evs. trace (snd (record_callback env r rp k v w)) = trace w @ evs \<and> (\<forall>e\<in>set evs. quiet e)"
  by (auto simp: record_callback_def Let_def WriteFile_trace split: sum.splits prod.splits)

lemma walk_quiet:
  "\<exists>evs. trace (snd (walk_leaves ls werr (record_callback env r rp) w)) = trace w @ evs
     \<and> (\<forall>e\<in>set evs. quiet e)"
proof (induction ls arbitrary: w)
  case Nil
  then show ?case by simp
next
  case (Cons kv ls)
  obtain k v where kv: "kv = (k, v)" by (cases kv)
  obtain res w1 where cb: "record_callback env r rp k v w = (res, w1)"
    by (cases "record_callback env r rp k v w")
  from callback_quiet[of env r rp k v w] cb obtain evs1 where
    e1: "trace w1 = trace w @ evs1" and q1: "\<forall>e\<in>set evs1. quiet e" by auto
  show ?case
  proof (cases res)
    case (Some err)
    with cb kv e1 q1 show ?thesis by auto
  next
    case None
    from Cons.IH[of w1] obtain evs where
      "trace (snd (walk_leaves ls werr (record_callback env r rp) w1)) = trace w1 @ evs"
      "\<forall>e\<in>set evs. quiet e" by blast
    with None cb kv e1 q1 show ?thesis
      by (intro exI[of _ "evs1 @ evs"]) auto
  qed
qed

lemma unpackRecords_quiet:
  "\<exists>evs. trace (snd (unpackRecords env carPath rp w)) = trace w @ evs \<and> (\<forall>e\<in>set evs. quiet e)"
proof (cases "ReadFile w carPath")
  case (Inl err)
  then show ?thesis by (simp add: unpackRecords_def)
next
  case (Inr fi)
  show ?thesis
  proof (cases "ReadRepoFromCar env fi")
    case (Inl err)
    with Inr show ?thesis by (simp add: unpackRecords_def)
  next
    case r: (Inr r)
    let ?w2 = "snd (MkdirAll env (Dir env (Join env rp ''_commit'')) (emit (PrintWritingOutput rp) w))"
    show ?thesis
    proof (cases "MarshalIndent env (SignedCommit r)")
      case (Inl err)
      with Inr r show ?thesis
        by (intro exI[of _ "[PrintWritingOutput rp]"]) (simp add: unpackRecords_def Let_def)
    next
      case cj: (Inr cj)
      obtain res w3 where wf: "WriteFile env (Join env rp ''_commit'' @ ''.json'') cj ?w2 = (res, w3)"
        by (cases "WriteFile env (Join env rp ''_commit'' @ ''.json'') cj ?w2")
      from WriteFile_quiet[of env "Join env rp ''_commit'' @ ''.json''" cj ?w2] wf obtain e where
        e: "trace w3 = trace w @ [PrintWritingOutput rp, e]" and q: "quiet e" by auto
      show ?thesis
      proof (cases res)
        case (Some err)
        with Inr r cj wf e q show ?thesis
          by (intro exI[of _ "[PrintWritingOutput rp, e]"]) (simp add: unpackRecords_def Let_def)
      next
        case None
        from walk_quiet[of "leaves r" "walk_error r" env r rp w3] obtain evs where
          "trace (snd (walk_leaves (leaves r) (walk_error r) (record_callback env r rp) w3)) = trace w3 @ evs"
          "\<forall>e\<in>set evs. quiet e" by blast
        with None Inr r cj wf e q show ?thesis
          by (intro exI[of _ "PrintWritingOutput rp # e # evs"])
             (simp add: unpackRecords_def Let_def ForEach_def)
      qed
    qed
  qed
qed

lemma downloadRepo_events:
  "PDSEndpoint ident \<noteq> [] \<Longrightarrow>
   \<exists>rest. trace (snd (downloadRepo env ident carPath w))
       = trace w @ PrintDownloading (PDSEndpoint ident) carPath
           # NetGetRepo (PDSEndpoint ident) (DID ident) # rest
     \<and> (\<forall>e\<in>set rest. quiet e)"
  by (auto simp: downloadRepo_def Let_def WriteFile_trace split: sum.splits)

lemma downloadRepo_quiet:
  "\<exists>evs. trace (snd (downloadRepo env ident carPath w)) = trace w @ evs \<and> (\<forall>e\<in>set evs. quiet e)"
proof (cases "PDSEndpoint ident = []")
  case True
  then show ?thesis by (simp add: downloadRepo_def)
next
  case False
  from downloadRepo_events[OF this, of env carPath w] obtain rest where
    "trace (snd (downloadRepo env ident carPath w))
       = trace w @ PrintDownloading (PDSEndpoint ident) carPath
           # NetGetRepo (PDSEndpoint ident) (DID ident) # rest"
    "\<forall>e\<in>set rest. quiet e" by blast
  then show ?thesis
    by (intro exI[of _ "PrintDownloading (PDSEndpoint ident) carPath
           # NetGetRepo (PDSEndpoint ident) (DID ident) # rest"]) simp
qed

lemma page_quiet:
  "\<exists>evs. trace (snd (downloadBlobs_page env host did topDir cids w)) = trace w @ evs
     \<and> (\<forall>e\<in>set evs. quiet e)"
proof (induction cids arbitrary: w)
  case Nil
  then show ?case by simp
next
  case (Cons c cs)
  let ?p = "Join env topDir c"
  show ?case
  proof (cases "Stat w ?p")
    case True
    from Cons.IH[of "emit (PrintBlobExists ?p) w"] obtain evs where
      "trace (snd (downloadBlobs_page env host did topDir cs (emit (PrintBlobExists ?p) w)))
         = trace (emit (PrintBlobExists ?p) w) @ evs" "\<forall>e\<in>set evs. quiet e" by blast
    with True show ?thesis
      by (intro exI[of _ "PrintBlobExists ?p # evs"]) (simp add: Let_def)
  next
    case False
    let ?w1 = "emit (NetGetBlob host c did) w"
    show ?thesis
    proof (cases "SyncGetBlob env host c did")
      case (Inl err)
      with False show ?thesis
        by (intro exI[of _ "[NetGetBlob host c did]"]) (simp add: Let_def)
    next
      case (Inr b)
      obtain res w2 where wf: "WriteFile env ?p b ?w1 = (res, w2)"
        by (cases "WriteFile env ?p b ?w1")
      from WriteFile_quiet[of env ?p b ?w1] wf obtain e where
        e: "trace w2 = trace w @ [NetGetBlob host c did, e]" and q: "quiet e" by auto
      show ?thesis
      proof (cases res)
        case (Some err)
        with False Inr wf e q show ?thesis
          by (intro exI[of _ "[NetGetBlob host c did, e]"]) (simp add: Let_def)
      next
        case None
        from Cons.IH[of "emit (PrintBlobDownloaded ?p) w2"] obtain evs where
          "trace (snd (downloadBlobs_page env host did topDir cs (emit (PrintBlobDownloaded ?p) w2)))
             = trace (emit (PrintBlobDownloaded ?p) w2) @ evs" "\<forall>e\<in>set evs. quiet e" by blast
        with None False Inr wf e q show ?thesis
          by (intro exI[of _ "NetGetBlob host c did # e # PrintBlobDownloaded ?p # evs"])
             (simp add: Let_def)
      qed
    qed
  qed
qed

lemma loop_quiet:
  "\<exists>evs. trace (snd (downloadBlobs_loop n env host did topDir cur w)) = trace w @ evs
     \<and> (\<forall>e\<in>set evs. quiet e)"
proof (induction n arbitrary: cur w)
  case 0
  then show ?case by simp
next
  case (Suc n)
  let ?w1 = "emit (NetListBlobs host cur did) w"
  show ?case
  proof (cases "SyncListBlobs env host cur did")
    case (Inl err)
    then show ?thesis
      by (intro exI[of _ "[NetListBlobs host cur did]"]) (simp add: Let_def)
  next
    case (Inr page)
    obtain cids nxt where page: "page = (cids, nxt)" by (cases page)
    obtain res w2 where pg: "downloadBlobs_page env host did topDir cids ?w1 = (res, w2)"
      by (cases "downloadBlobs_page env host did topDir cids ?w1")
    from page_quiet[of env host did topDir cids ?w1] pg obtain evp where
      e: "trace w2 = trace ?w1 @ evp" and q: "\<forall>e\<in>set evp. quiet e" by auto
    show ?thesis
    proof (cases "res = None \<and> nxt \<noteq> None \<and> the nxt \<noteq> []")
      case False
      with Inr page pg have "snd (downloadBlobs_loop (Suc n) env host did topDir cur w) = w2"
        by (auto simp: Let_def split: option.splits)
      with e q show ?thesis
        by (intro exI[of _ "NetListBlobs host cur did # evp"]) simp
    next
      case True
      from Suc.IH[of "the nxt" w2] obtain evl where
        "trace (snd (downloadBlobs_loop n env host did topDir (the nxt) w2)) = trace w2 @ evl"
        "\<forall>e\<in>set evl. quiet e" by blast
      moreover from True Inr page pg
      have "downloadBlobs_loop (Suc n) env host did topDir cur w
          = downloadBlobs_loop n env host did topDir (the nxt) w2"
        by (auto simp: Let_def)
      ultimately show ?thesis using e q
        by (intro exI[of _ "NetListBlobs host cur did # evp @ evl"]) auto
    qed
  qed
qed

lemma downloadBlobs_quiet:
  "\<exists>evs. trace (snd (downloadBlobs fuel env ident rp w)) = trace w @ evs \<and> (\<forall>e\<in>set evs. quiet e)"
proof (cases "PDSEndpoint ident = []")
  case True
  then show ?thesis
    by (intro exI[of _ "[PrintWritingBlobs (Join env rp ''_blob'')]"])
       (simp add: downloadBlobs_def Let_def)
next
  case False
  let ?top = "Join env rp ''_blob''"
  let ?w2 = "snd (MkdirAll env ?top (emit (PrintWritingBlobs ?top) w))"
  from loop_quiet[of fuel env "PDSEndpoint ident" "DID ident" ?top "[]" ?w2] obtain evs where
    "trace (snd (downloadBlobs_loop fuel env (PDSEndpoint ident) (DID ident) ?top [] ?w2)) = trace ?w2 @ evs"
    "\<forall>e\<in>set evs. quiet e" by blast
  with False show ?thesis
    by (intro exI[of _ "PrintWritingBlobs ?top # evs"]) (simp add: downloadBlobs_def Let_def)
qed

lemma processRepo_stages:
  assumes "ParseAtIdentifier env did = Inr atid" and "Lookup env atid = Inr ident"
  shows "processRepo fuel env config did w =
     (case downloadRepo env ident (Join env (CarsDir config) (DID ident @ ''.car''))
             (emit (NetLookup atid) (emit (PrintProcessing atid) w)) of
        (Some err, w3) \<Rightarrow> (Returned (Some err), w3)
      | (None, w3) \<Rightarrow>
          (case unpackRecords env (Join env (CarsDir config) (DID ident @ ''.car''))
                  (Join env (RecordsDir config) (DID ident)) w3 of
             (Some err, w4) \<Rightarrow> (Returned (Some err), w4)
           | (None, w4) \<Rightarrow>
               if DownloadBlobs config
               then downloadBlobs fuel env ident (Join env (RecordsDir config) (DID ident)) w4
               else (Returned None, w4)))"
  using assms by (auto simp: processRepo_def Let_def split: prod.splits option.splits)

lemma processRepo_events:
  "\<exists>evs. trace (snd (processRepo fuel env config did w)) = trace w @ evs
     \<and> processing_of evs = parsed env [did] \<and> error_reports evs = []"
proof (cases "ParseAtIdentifier env did")
  case (Inl err)
  then show ?thesis by (simp add: processRepo_def)
next
  case (Inr atid)
  let ?w2 = "emit (NetLookup atid) (emit (PrintProcessing atid) w)"
  show ?thesis
  proof (cases "Lookup env atid")
    case (Inl err)
    with Inr show ?thesis
      by (intro exI[of _ "[PrintProcessing atid, NetLookup atid]"]) (simp add: processRepo_def Let_def)
  next
    case ident: (Inr ident)
    let ?car = "Join env (CarsDir config) (DID ident @ ''.car'')"
    let ?rp = "Join env (RecordsDir config) (DID ident)"
    note st = processRepo_stages[OF Inr ident, of fuel config w]
    obtain r3 w3 where d: "downloadRepo env ident ?car ?w2 = (r3, w3)"
      by (cases "downloadRepo env ident ?car ?w2")
    from downloadRepo_quiet[of env ident ?car ?w2] d obtain ev3 where
      e3: "trace w3 = trace ?w2 @ ev3" and q3: "\<forall>e\<in>set ev3. quiet e" by auto
    have head: "processing_of ([PrintProcessing atid, NetLookup atid] @ ev3 @ evs) = parsed env [did]
        \<and> error_reports ([PrintProcessing atid, NetLookup atid] @ ev3 @ evs) = []"
      if "\<forall>e\<in>set evs. quiet e" for evs
      using that q3 Inr by (simp add: quiet_processing quiet_reports)
    show ?thesis
    proof (cases r3)
      case (Some err)
      with st d have "snd (processRepo fuel env config did w) = w3" by simp
      with e3 head[of "[]"] show ?thesis
        by (intro exI[of _ "[PrintProcessing atid, NetLookup atid] @ ev3 @ []"]) simp
    next
      case None
      obtain r4 w4 where u: "unpackRecords env ?car ?rp w3 = (r4, w4)"
        by (cases "unpackRecords env ?car ?rp w3")
      from unpackRecords_quiet[of env ?car ?rp w3] u obtain ev4 where
        e4: "trace w4 = trace w3 @ ev4" and q4: "\<forall>e\<in>set ev4. quiet e" by auto
      show ?thesis
      proof (cases "r4 = None \<and> DownloadBlobs config")
        case False
        with st d None u have "snd (processRepo fuel env config did w) = w4"
          by (auto split: option.splits)
        with e3 e4 head[OF q4] show ?thesis
          by (intro exI[of _ "[PrintProcessing atid, NetLookup atid] @ ev3 @ ev4"]) simp
      next
        case True
        with st d None u have eq: "processRepo fuel env config did w = downloadBlobs fuel env ident ?rp w4"
          by simp
        from downloadBlobs_quiet[of fuel env ident ?rp w4] obtain ev5 where
          e5: "trace (snd (downloadBlobs fuel env ident ?rp w4)) = trace w4 @ ev5"
          and q5: "\<forall>e\<in>set ev5. quiet e" by blast
        from q4 q5 have "\<forall>e\<in>set (ev4 @ ev5). quiet e" by auto
        from head[OF this] eq e3 e4 e5 show ?thesis
          by (intro exI[of _ "[PrintProcessing atid, NetLookup atid] @ ev3 @ ev4 @ ev5"]) simp
      qed
    qed
  qed
qed

lemma parsed_Cons: "parsed env (did # rest) = parsed env [did] @ parsed env rest"
  by (simp split: sum.splits)

lemma walk_leaves_append:
  "walk_leaves (xs @ ys) werr cb w =
     (case walk_leaves xs None cb w of
        (Some err, w') \<Rightarrow> (Some err, w')
      | (None, w') \<Rightarrow> walk_leaves ys werr cb w')"
  by (induction xs arbitrary: w) (auto split: prod.splits option.splits)

lemma loop_returns:
  "pages_end n env host did cursor \<Longrightarrow>
   fst (downloadBlobs_loop n env host did topDir cursor w) \<noteq> OutOfFuel"
proof (induction n arbitrary: cursor w)
  case 0
  then show ?case by simp
next
  case (Suc n)
  let ?w1 = "emit (NetListBlobs host cursor did) w"
  show ?case
  proof (cases "SyncListBlobs env host cursor did")
    case (Inl err)
    then show ?thesis by (simp add: Let_def)
  next
    case (Inr page)
    obtain cids nxt where page: "page = (cids, nxt)" by (cases page)
    obtain res w2 where pg: "downloadBlobs_page env host did topDir cids ?w1 = (res, w2)"
      by (cases "downloadBlobs_page env host did topDir cids ?w1")
    show ?thesis
    proof (cases "res = None \<and> nxt \<noteq> None \<and> the nxt \<noteq> []")
      case False
      with Inr page pg show ?thesis
        by (auto simp: Let_def split: option.splits)
    next
      case True
      with Suc.prems Inr page have "pages_end n env host did (the nxt)" by simp
      from Suc.IH[OF this, of w2] True Inr page pg show ?thesis
        by (simp add: Let_def)
    qed
  qed
qed

lemma downloadBlobs_returns:
  "pages_end fuel env (PDSEndpoint ident) (DID ident) [] \<Longrightarrow>
   fst (downloadBlobs fuel env ident rp w) \<noteq> OutOfFuel"
  by (simp add: downloadBlobs_def Let_def loop_returns)

lemma processRepo_returns:
  assumes "DownloadBlobs config \<longrightarrow>
     (\<forall>atid ident. ParseAtIdentifier env did = Inr atid \<and> Lookup env atid = Inr ident \<longrightarrow>
        pages_end fuel env (PDSEndpoint ident) (DID ident) [])"
  shows "fst (processRepo fuel env config did w) \<noteq> OutOfFuel"
proof (cases "ParseAtIdentifier env did")
  case (Inl err)
  then show ?thesis by (simp add: processRepo_def)
next
  case (Inr atid)
  show ?thesis
  proof (cases "Lookup env atid")
    case (Inl err)
    with Inr show ?thesis by (simp add: processRepo_def Let_def)
  next
    case ident: (Inr ident)
    let ?car = "Join env (CarsDir config) (DID ident @ ''.car'')"
    let ?rp = "Join env (RecordsDir config) (DID ident)"
    let ?w2 = "emit (NetLookup atid) (emit (PrintProcessing atid) w)"
    note st = processRepo_stages[OF Inr ident, of fuel config w]
    obtain r3 w3 where d: "downloadRepo env ident ?car ?w2 = (r3, w3)"
      by (cases "downloadRepo env ident ?car ?w2")
    obtain r4 w4 where u: "unpackRecords env ?car ?rp w3 = (r4, w4)"
      by (cases "unpackRecords env ?car ?rp w3")
    show ?thesis
    proof (cases "r3 = None \<and> r4 = None \<and> DownloadBlobs config")
      case False
      with st d u show ?thesis by (auto split: option.splits)
    next
      case True
      with assms Inr ident have "pages_end fuel env (PDSEndpoint ident) (DID ident) []" by blast
      from downloadBlobs_returns[OF this, of ?rp w4] True st d u show ?thesis by simp
    qed
  qed
qed

lemma run_loop_total:
  assumes "DownloadBlobs config \<longrightarrow>
     (\<forall>did\<in>set dids. \<forall>atid ident.
        ParseAtIdentifier env did = Inr atid \<and> Lookup env atid = Inr ident \<longrightarrow>
        pages_end fuel env (PDSEndpoint ident) (DID ident) [])"
  shows "\<exists>w' evs. run_loop fuel env config dids w = (Returned None, w')
     \<and> trace w' = trace w @ evs
     \<and> map fst (pipeline_results fuel env config dids w) = dids
     \<and> processing_of evs = parsed env dids
     \<and> error_reports evs = failures_of (pipeline_results fuel env config dids w)"
  using assms
proof (induction dids arbitrary: w)
  case Nil
  show ?case by simp
next
  case (Cons did rest)
  obtain out w1 where p: "processRepo fuel env config did w = (out, w1)"
    by (cases "processRepo fuel env config did w")
  have hd: "DownloadBlobs config \<longrightarrow>
     (\<forall>atid ident. ParseAtIdentifier env did = Inr atid \<and> Lookup env atid = Inr ident \<longrightarrow>
        pages_end fuel env (PDSEndpoint ident) (DID ident) [])"
    using Cons.prems by auto
  have "fst (processRepo fuel env config did w) \<noteq> OutOfFuel"
    by (rule processRepo_returns[OF hd])
  with p obtain r where out: "out = Returned r" by (cases out) auto
  from processRepo_events[of fuel env config did w] p obtain ev1 where
    e1: "trace w1 = trace w @ ev1" and p1: "processing_of ev1 = parsed env [did]"
    and r1: "error_reports ev1 = []" by auto
  have pc: "parsed env (did # rest) = processing_of ev1 @ parsed env rest"
    using p1 parsed_Cons[of env did rest] by simp
  have rest: "DownloadBlobs config \<longrightarrow>
     (\<forall>did\<in>set rest. \<forall>atid ident.
        ParseAtIdentifier env did = Inr atid \<and> Lookup env atid = Inr ident \<longrightarrow>
        pages_end fuel env (PDSEndpoint ident) (DID ident) [])"
    using Cons.prems by auto
  show ?case
  proof (cases r)
    case None
    from Cons.IH[OF rest, of w1] obtain w' evs where
      "run_loop fuel env config rest w1 = (Returned None, w')"
      "trace w' = trace w1 @ evs"
      "map fst (pipeline_results fuel env config rest w1) = rest"
      "processing_of evs = parsed env rest"
      "error_reports evs = failures_of (pipeline_results fuel env config rest w1)"
      by blast
    with None out p e1 r1 pc show ?thesis
      by (intro exI[of _ w'] exI[of _ "ev1 @ evs"]) (simp del: parsed.simps)
  next
    case (Some err)
    let ?w2 = "emit (ErrorProcessing did err) w1"
    from Cons.IH[OF rest, of ?w2] obtain w' evs where
      "run_loop fuel env config rest ?w2 = (Returned None, w')"
      "trace w' = trace ?w2 @ evs"
      "map fst (pipeline_results fuel env config rest ?w2) = rest"
      "processing_of evs = parsed env rest"
      "error_reports evs = failures_of (pipeline_results fuel env config rest ?w2)"
      by blast
    with Some out p e1 r1 pc show ?thesis
      by (intro exI[of _ w'] exI[of _ "ev1 @ ErrorProcessing did err # evs"])
         (simp del: parsed.simps)
  qed
qed

text \<open>
  Claim C2. When the pipeline of an identifier returns an error, the loop of \<^verbatim>\<open>run\<close>
  prints the report of that error and goes on with the remaining identifiers, from the world
  the failed pipeline left. And the loop does return, with nil, for every list of
  identifiers and from every world, when blobs are not downloaded, or when the blob listing
  of each identity the list resolves to ends within the listing calls allowed: then every
  identifier of the list has had its pipeline run, in the order of the list and whatever the
  results of the others, the pipelines started (the \<^verbatim>\<open>Processing\<close> lines) are those of
  all the identifiers that parse, and the reports printed are exactly the errors the
  pipelines returned, each with its identifier, in that order.
\<close>

theorem batch_continues_after_failure:
  "(processRepo fuel env config did w = (Returned (Some err), w1) \<longrightarrow>
      run_loop fuel env config (did # rest) w
        = run_loop fuel env config rest (emit (ErrorProcessing did err) w1))
   \<and> ((DownloadBlobs config \<longrightarrow>
          (\<forall>did\<in>set dids. \<forall>atid ident.
             ParseAtIdentifier env did = Inr atid \<and> Lookup env atid = Inr ident \<longrightarrow>
             pages_end fuel env (PDSEndpoint ident) (DID ident) []))
        \<longrightarrow> (\<exists>w' evs. run_loop fuel env config dids w = (Returned None, w')
              \<and> trace w' = trace w @ evs
              \<and> map fst (pipeline_results fuel env config dids w) = dids
              \<and> processing_of evs = parsed env dids
              \<and> error_reports evs = failures_of (pipeline_results fuel env config dids w)))"
proof (intro conjI impI)
  assume "processRepo fuel env config did w = (Returned (Some err), w1)"
  then show "run_loop fuel env config (did # rest) w
        = run_loop fuel env config rest (emit (ErrorProcessing did err) w1)"
    by simp
next
  assume "DownloadBlobs config \<longrightarrow>
          (\<forall>did\<in>set dids. \<forall>atid ident.
             ParseAtIdentifier env did = Inr atid \<and> Lookup env atid = Inr ident \<longrightarrow>
             pages_end fuel env (PDSEndpoint ident) (DID ident) [])"
  then show "\<exists>w' evs. run_loop fuel env config dids w = (Returned None, w')
              \<and> trace w' = trace w @ evs
              \<and> map fst (pipeline_results fuel env config dids w) = dids
              \<and> processing_of evs = parsed env dids
              \<and> error_reports evs = failures_of (pipeline_results fuel env config dids w)"
    by (rule run_loop_total)
qed

theorem batch_continues_after_failure_witness:
  "pages_end 3 demo_env (PDSEndpoint alice) (DID alice) []
   \<and> run_loop 3 demo_env demo_config [''did:plc:bob'', ''did:plc:alice''] empty_world
       = run_loop 3 demo_env demo_config [''did:plc:alice'']
           (emit (ErrorProcessing ''did:plc:bob'' ''identity not found'')
              (snd (processRepo 3 demo_env demo_config ''did:plc:bob'' empty_world)))
   \<and> fst (run_loop 3 demo_env demo_config demo_dids empty_world) = Returned None
   \<and> pipeline_results 3 demo_env demo_config demo_dids empty_world
       = [(''did:plc:alice'', None), (''did:plc:bob'', Some ''identity not found''),
          (''not a did'', Some ''invalid identifier''), (''did:plc:alice'', None)]
   \<and> processing_of (trace (snd (run_loop 3 demo_env demo_config demo_dids empty_world)))
       = [''did:plc:alice'', ''did:plc:bob'', ''did:plc:alice'']
   \<and> error_reports (trace (snd (run_loop 3 demo_env demo_config demo_dids empty_world)))
       = [(''did:plc:bob'', ''identity not found''), (''not a did'', ''invalid identifier'')]"
proof -
  let ?w1 = "snd (processRepo 3 demo_env demo_config ''did:plc:bob'' empty_world)"
  have pe: "pages_end 3 demo_env (PDSEndpoint alice) (DID alice) []"
    by code_simp
  have H: "DownloadBlobs demo_config \<longrightarrow>
     (\<forall>did\<in>set demo_dids. \<forall>atid ident.
        ParseAtIdentifier demo_env did = Inr atid \<and> Lookup demo_env atid = Inr ident \<longrightarrow>
        pages_end 3 demo_env (PDSEndpoint ident) (DID ident) [])"
  proof (intro impI ballI allI)
    fix did atid ident
    assume "ParseAtIdentifier demo_env did = Inr atid \<and> Lookup demo_env atid = Inr ident"
    then have "ident = alice"
      by (auto simp: demo_env_def split: if_splits)
    with pe show "pages_end 3 demo_env (PDSEndpoint ident) (DID ident) []" by simp
  qed
  have "fst (processRepo 3 demo_env demo_config ''did:plc:bob'' empty_world)
       = Returned (Some ''identity not found'')"
    by code_simp
  then have b: "processRepo 3 demo_env demo_config ''did:plc:bob'' empty_world
       = (Returned (Some ''identity not found''), ?w1)"
    by (simp add: prod_eq_iff)
  note step = batch_continues_after_failure
    [where fuel = 3 and env = demo_env and config = demo_config and did = "''did:plc:bob''"
       and w = empty_world and err = "''identity not found''" and ?w1.0 = ?w1
       and rest = "[''did:plc:alice'']", THEN conjunct1, rule_format, OF b]
  note total = batch_continues_after_failure
    [where fuel = 3 and env = demo_env and config = demo_config and dids = demo_dids
       and w = empty_world, THEN conjunct2, THEN mp, OF H]
  have r: "pipeline_results 3 demo_env demo_config demo_dids empty_world
       = [(''did:plc:alice'', None), (''did:plc:bob'', Some ''identity not found''),
          (''not a did'', Some ''invalid identifier''), (''did:plc:alice'', None)]"
    by code_simp
  have p: "parsed demo_env demo_dids = [''did:plc:alice'', ''did:plc:bob'', ''did:plc:alice'']"
    by code_simp
  have t: "trace empty_world = []"
    by (simp add: empty_world_def)
  from total obtain w' evs where
    "run_loop 3 demo_env demo_config demo_dids empty_world = (Returned None, w')"
    "trace w' = trace empty_world @ evs"
    "processing_of evs = parsed demo_env demo_dids"
    "error_reports evs = failures_of (pipeline_results 3 demo_env demo_config demo_dids empty_world)"
    by (elim exE conjE)
  with r p t have
    "fst (run_loop 3 demo_env demo_config demo_dids empty_world) = Returned None"
    "processing_of (trace (snd (run_loop 3 demo_env demo_config demo_dids empty_world)))
       = [''did:plc:alice'', ''did:plc:bob'', ''did:plc:alice'']"
    "error_reports (trace (snd (run_loop 3 demo_env demo_config demo_dids empty_world)))
       = [(''did:plc:bob'', ''identity not found''), (''not a did'', ''invalid identifier'')]"
    by simp_all
  with pe step r show ?thesis by (intro conjI)
qed

text \<open>
  Claim C5. When the fetch of a blob fails in the middle of a page, the pagination loop
  returns that error at once: the last effect is the failed fetch, the rest of the page is
  not touched and no further page is listed. In \<^verbatim>\<open>processRepo\<close> the blob synchronizer runs
  after \<^verbatim>\<open>unpackRecords\<close> has returned nil, and however it ends, every file that existed
  when it started, the exported commit and records among them, keeps its content, and the
  trace up to that point stays as it was.
\<close>

theorem failed_blob_fetch_keeps_records:
  "(SyncListBlobs env host cursor d = Inr (pre @ c # post, next_cursor)
      \<and> downloadBlobs_page env host d topDir pre (emit (NetListBlobs host cursor d) w) = (None, w2)
      \<and> \<not> Stat w2 (Join env topDir c)
      \<and> SyncGetBlob env host c d = Inl err
    \<longrightarrow> downloadBlobs_loop (Suc n) env host d topDir cursor w
          = (Returned (Some err), emit (NetGetBlob host c d) w2))
   \<and> (ParseAtIdentifier env did = Inr atid \<and> Lookup env atid = Inr ident
      \<and> downloadRepo env ident (Join env (CarsDir config) (DID ident @ ''.car''))
           (emit (NetLookup atid) (emit (PrintProcessing atid) w)) = (None, w3)
      \<and> unpackRecords env (Join env (CarsDir config) (DID ident @ ''.car''))
           (Join env (RecordsDir config) (DID ident)) w3 = (None, w4)
      \<and> DownloadBlobs config
    \<longrightarrow> processRepo fuel env config did w
          = downloadBlobs fuel env ident (Join env (RecordsDir config) (DID ident)) w4
        \<and> (\<forall>q b. files w4 q = Some b \<longrightarrow>
              files (snd (processRepo fuel env config did w)) q = Some b)
        \<and> (\<exists>evs. trace (snd (processRepo fuel env config did w)) = trace w4 @ evs))"
proof (intro conjI impI)
  assume "SyncListBlobs env host cursor d = Inr (pre @ c # post, next_cursor)
      \<and> downloadBlobs_page env host d topDir pre (emit (NetListBlobs host cursor d) w) = (None, w2)
      \<and> \<not> Stat w2 (Join env topDir c)
      \<and> SyncGetBlob env host c d = Inl err"
  then show "downloadBlobs_loop (Suc n) env host d topDir cursor w
          = (Returned (Some err), emit (NetGetBlob host c d) w2)"
    using loop_fetch_fails[of env host cursor d pre c post next_cursor topDir w w2 err n] by blast
next
  assume a: "ParseAtIdentifier env did = Inr atid \<and> Lookup env atid = Inr ident
      \<and> downloadRepo env ident (Join env (CarsDir config) (DID ident @ ''.car''))
           (emit (NetLookup atid) (emit (PrintProcessing atid) w)) = (None, w3)
      \<and> unpackRecords env (Join env (CarsDir config) (DID ident @ ''.car''))
           (Join env (RecordsDir config) (DID ident)) w3 = (None, w4)
      \<and> DownloadBlobs config"
  then show eq: "processRepo fuel env config did w
          = downloadBlobs fuel env ident (Join env (RecordsDir config) (DID ident)) w4"
    using processRepo_stages[of env did atid ident fuel config w] by simp
  from downloadBlobs_invariant[of fuel env ident "Join env (RecordsDir config) (DID ident)" w4]
  show "\<forall>q b. files w4 q = Some b \<longrightarrow> files (snd (processRepo fuel env config did w)) q = Some b"
    unfolding eq by blast
  from downloadBlobs_invariant[of fuel env ident "Join env (RecordsDir config) (DID ident)" w4]
  show "\<exists>evs. trace (snd (processRepo fuel env config did w)) = trace w4 @ evs"
    unfolding eq by blast
qed

theorem failed_blob_fetch_keeps_records_witness:
  "fst (processRepo 3 blob2_fails_env demo_config ''did:plc:alice'' empty_world)
       = Returned (Some ''blob fetch failed'')
   \<and> last (trace (snd (processRepo 3 blob2_fails_env demo_config ''did:plc:alice'' empty_world)))
       = NetGetBlob ''pds.example'' ''blob2'' ''did:plc:alice''
   \<and> listing_cursors
        (trace (snd (processRepo 3 blob2_fails_env demo_config ''did:plc:alice'' empty_world)))
       = [[]]
   \<and> files (snd (processRepo 3 blob2_fails_env demo_config ''did:plc:alice'' empty_world))
         ''records/did:plc:alice/post/1.json'' = Some ''{record post/1}''
   \<and> files (snd (processRepo 3 blob2_fails_env demo_config ''did:plc:alice'' empty_world))
         ''records/did:plc:alice/_commit.json'' = Some ''{commit of alice}''"
proof -
  let ?car = "''cars/did:plc:alice.car''"
  let ?rp = "''records/did:plc:alice''"
  let ?w2 = "emit (NetLookup ''did:plc:alice'') (emit (PrintProcessing ''did:plc:alice'') empty_world)"
  let ?w3 = "snd (downloadRepo blob2_fails_env alice ?car ?w2)"
  let ?w4 = "snd (unpackRecords blob2_fails_env ?car ?rp ?w3)"
  let ?w5 = "snd (processRepo 3 blob2_fails_env demo_config ''did:plc:alice'' empty_world)"
  have parse: "ParseAtIdentifier blob2_fails_env ''did:plc:alice'' = Inr ''did:plc:alice''"
    by (simp add: blob2_fails_env_def demo_env_def)
  have lookup: "Lookup blob2_fails_env ''did:plc:alice'' = Inr alice"
    by (simp add: blob2_fails_env_def demo_env_def)
  have paths: "Join blob2_fails_env (CarsDir demo_config) (DID alice @ ''.car'') = ?car"
    "Join blob2_fails_env (RecordsDir demo_config) (DID alice) = ?rp"
    by (simp_all add: blob2_fails_env_def demo_env_def demo_config_def alice_def)
  have "fst (downloadRepo blob2_fails_env alice ?car ?w2) = None"
    by code_simp
  then have dl: "downloadRepo blob2_fails_env alice ?car ?w2 = (None, ?w3)"
    by (simp add: prod_eq_iff)
  have "fst (unpackRecords blob2_fails_env ?car ?rp ?w3) = None"
    by code_simp
  then have un: "unpackRecords blob2_fails_env ?car ?rp ?w3 = (None, ?w4)"
    by (simp add: prod_eq_iff)
  have on: "DownloadBlobs demo_config"
    by (simp add: demo_config_def)
  have r1: "files ?w4 ''records/did:plc:alice/post/1.json'' = Some ''{record post/1}''"
    by code_simp
  have r2: "files ?w4 ''records/did:plc:alice/_commit.json'' = Some ''{commit of alice}''"
    by code_simp
  have res: "fst (processRepo 3 blob2_fails_env demo_config ''did:plc:alice'' empty_world)
       = Returned (Some ''blob fetch failed'')"
    by code_simp
  have lst: "last (trace ?w5) = NetGetBlob ''pds.example'' ''blob2'' ''did:plc:alice''"
    by code_simp
  have cur: "listing_cursors (trace ?w5) = [[]]"
    by code_simp
  note keep = failed_blob_fetch_keeps_records
    [where env = blob2_fails_env and did = "''did:plc:alice''" and atid = "''did:plc:alice''"
       and ident = alice and config = demo_config and w = empty_world and ?w3.0 = ?w3
       and ?w4.0 = ?w4 and fuel = 3, THEN conjunct2, unfolded paths, rule_format,
     OF conjI [OF parse conjI [OF lookup conjI [OF dl conjI [OF un on]]]],
     THEN conjunct2, THEN conjunct1]
  from keep r1 have k1: "files ?w5 ''records/did:plc:alice/post/1.json'' = Some ''{record post/1}''"
    by blast
  from keep r2 have k2: "files ?w5 ''records/did:plc:alice/_commit.json'' = Some ''{commit of alice}''"
    by blast
  from res lst cur k1 k2 show ?thesis by simp
qed

lemma unpackRecords_walk:
  assumes "ReadFile w carPath = Inr fi" and "ReadRepoFromCar env fi = Inr r"
    and "MarshalIndent env (SignedCommit r) = Inr cj"
    and "write_fault env (commit_file env rp) = NoFault"
  shows "\<exists>w3. unpackRecords env carPath rp w
           = walk_leaves (leaves r) (walk_error r) (record_callback env r rp) w3
     \<and> trace w3 = trace w @ [PrintWritingOutput rp, FileWritten (commit_file env rp) cj]"
  using assms
  by (intro exI[of _ "snd (WriteFile env (commit_file env rp) cj
        (snd (MkdirAll env (Dir env (Join env rp ''_commit'')) (emit (PrintWritingOutput rp) w))))"])
     (simp add: unpackRecords_def Let_def ForEach_def WriteFile_def commit_file_def)

lemma callback_write_fails:
  assumes "GetRecord r k = Inr (c, rec)" and "MarshalIndent env rec = Inr j"
    and "write_fault env (record_file env rp k) = OpenFails err
         \<or> (\<exists>n. write_fault env (record_file env rp k) = WriteFails err n)"
  shows "fst (record_callback env r rp k v w) = Some err
     \<and> trace (snd (record_callback env r rp k v w))
         = trace w @ [PrintRecordPath (Join env rp k), FileWriteFailed (record_file env rp k)]"
  using assms
  by (auto simp: record_callback_def Let_def WriteFile_def record_file_def)

lemma walk_write_fails:
  assumes pre: "\<forall>(k', v')\<in>set pre. write_fault env (record_file env rp k') = NoFault"
    and g: "GetRecord r k = Inr (c, rec)" and m: "MarshalIndent env rec = Inr j"
    and f: "write_fault env (record_file env rp k) = OpenFails err
         \<or> (\<exists>n. write_fault env (record_file env rp k) = WriteFails err n)"
  shows "\<exists>evs. fst (walk_leaves (pre @ (k, v) # post) werr (record_callback env r rp) w) = Some err
     \<and> trace (snd (walk_leaves (pre @ (k, v) # post) werr (record_callback env r rp) w))
         = trace w @ evs @ [PrintRecordPath (Join env rp k), FileWriteFailed (record_file env rp k)]
     \<and> exported evs = exports_of env r rp pre"
proof -
  let ?cb = "record_callback env r rp"
  from walk_shape[of pre None env r rp] obtain res evs ks where
    w1: "\<forall>w. fst (walk_leaves pre None ?cb w) = res
        \<and> trace (snd (walk_leaves pre None ?cb w)) = trace w @ evs"
    and w4: "(\<forall>(k, v)\<in>set pre. write_fault env (record_file env rp k) = NoFault) \<longrightarrow>
          res = None \<and> exported evs = exports_of env r rp pre
          \<and> filter is_warning evs = warnings_of env r pre"
    by blast
  from w4 pre have res: "res = None" and ex: "exported evs = exports_of env r rp pre" by auto
  obtain x w1 where p: "walk_leaves pre None ?cb w = (x, w1)"
    by (cases "walk_leaves pre None ?cb w")
  with w1 res have x: "x = None" and t1: "trace w1 = trace w @ evs"
    by (metis fst_conv, metis snd_conv)
  from callback_write_fails[OF g m f, of v w1]
  have c1: "fst (?cb k v w1) = Some err"
    and c2: "trace (snd (?cb k v w1))
         = trace w1 @ [PrintRecordPath (Join env rp k), FileWriteFailed (record_file env rp k)]"
    by auto
  have "walk_leaves (pre @ (k, v) # post) werr ?cb w = (Some err, snd (?cb k v w1))"
    using p x c1 by (simp add: walk_leaves_append walk_leaves_step del: walk_leaves.simps)
  with c2 t1 ex show ?thesis
    by (intro exI[of _ evs]) simp
qed

text \<open>
  Claim C9. Take an identifier that resolves, whose archive is fetched, stored and decoded
  and whose commit is exported, and let the first write of a record file that fails be that
  of the record \<open>k\<close>, which resolves and serializes. Then \<^verbatim>\<open>unpackRecords\<close> returns the
  error of that write, from every world that holds the archive, and \<^verbatim>\<open>processRepo\<close>
  returns it too: its last effect is the failed write, the records after \<open>k\<close> are not
  visited and the blob synchronizer does not run. A record that fails to resolve or to
  serialize, in contrast, makes the callback return nil (with a warning), so the walk
  continues.
\<close>

theorem record_write_failure_aborts:
  assumes parse: "ParseAtIdentifier env did = Inr atid"
    and lookup: "Lookup env atid = Inr ident"
    and host: "PDSEndpoint ident \<noteq> []"
    and fetch: "SyncGetRepo env (PDSEndpoint ident) (DID ident) = Inr repoBytes"
    and carw: "write_fault env (Join env (CarsDir config) (DID ident @ ''.car'')) = NoFault"
    and dec: "ReadRepoFromCar env repoBytes = Inr r"
    and cm: "MarshalIndent env (SignedCommit r) = Inr cj"
    and cw: "write_fault env (commit_file env (Join env (RecordsDir config) (DID ident))) = NoFault"
    and lv: "leaves r = pre @ (k, v) # post"
    and prew: "\<forall>(k', v')\<in>set pre.
       write_fault env (record_file env (Join env (RecordsDir config) (DID ident)) k') = NoFault"
    and g: "GetRecord r k = Inr (c, rec)"
    and m: "MarshalIndent env rec = Inr j"
    and f: "write_fault env (record_file env (Join env (RecordsDir config) (DID ident)) k)
              = OpenFails err
         \<or> (\<exists>n. write_fault env (record_file env (Join env (RecordsDir config) (DID ident)) k)
                  = WriteFails err n)"
  shows "(\<forall>w3. ReadFile w3 (Join env (CarsDir config) (DID ident @ ''.car'')) = Inr repoBytes \<longrightarrow>
            fst (unpackRecords env (Join env (CarsDir config) (DID ident @ ''.car''))
                   (Join env (RecordsDir config) (DID ident)) w3) = Some err)
    \<and> fst (processRepo fuel env config did w) = Returned (Some err)
    \<and> (\<exists>evs. trace (snd (processRepo fuel env config did w))
          = trace w
            @ [PrintProcessing atid, NetLookup atid,
               PrintDownloading (PDSEndpoint ident) (Join env (CarsDir config) (DID ident @ ''.car'')),
               NetGetRepo (PDSEndpoint ident) (DID ident),
               FileWritten (Join env (CarsDir config) (DID ident @ ''.car'')) repoBytes,
               PrintWritingOutput (Join env (RecordsDir config) (DID ident)),
               FileWritten (commit_file env (Join env (RecordsDir config) (DID ident))) cj]
            @ evs
            @ [PrintRecordPath (Join env (Join env (RecordsDir config) (DID ident)) k),
               FileWriteFailed (record_file env (Join env (RecordsDir config) (DID ident)) k)]
        \<and> exported evs = exports_of env r (Join env (RecordsDir config) (DID ident)) pre)
    \<and> (\<forall>k' v' e w'. GetRecord r k' = Inl e \<longrightarrow>
          record_callback env r (Join env (RecordsDir config) (DID ident)) k' v' w'
            = (None, emit (WarnGetRecord k' e) w'))
    \<and> (\<forall>k' v' c' rec' e w'. GetRecord r k' = Inr (c', rec') \<and> MarshalIndent env rec' = Inl e \<longrightarrow>
          fst (record_callback env r (Join env (RecordsDir config) (DID ident)) k' v' w') = None)"
proof -
  let ?car = "Join env (CarsDir config) (DID ident @ ''.car'')"
  let ?rp = "Join env (RecordsDir config) (DID ident)"
  let ?w2 = "emit (NetLookup atid) (emit (PrintProcessing atid) w)"
  let ?cb = "record_callback env r ?rp"
  have unpack: "\<exists>evs. fst (unpackRecords env ?car ?rp w3) = Some err
      \<and> trace (snd (unpackRecords env ?car ?rp w3))
          = trace w3 @ [PrintWritingOutput ?rp, FileWritten (commit_file env ?rp) cj] @ evs
              @ [PrintRecordPath (Join env ?rp k), FileWriteFailed (record_file env ?rp k)]
      \<and> exported evs = exports_of env r ?rp pre"
    if rd: "ReadFile w3 ?car = Inr repoBytes" for w3
  proof -
    from unpackRecords_walk[OF rd dec cm cw] obtain w4 where
      u: "unpackRecords env ?car ?rp w3 = walk_leaves (leaves r) (walk_error r) ?cb w4"
      and t4: "trace w4 = trace w3 @ [PrintWritingOutput ?rp, FileWritten (commit_file env ?rp) cj]"
      by blast
    from walk_write_fails[OF prew g m f, of v post "walk_error r" w4] obtain evs where
      "fst (walk_leaves (pre @ (k, v) # post) (walk_error r) ?cb w4) = Some err"
      "trace (snd (walk_leaves (pre @ (k, v) # post) (walk_error r) ?cb w4))
         = trace w4 @ evs @ [PrintRecordPath (Join env ?rp k), FileWriteFailed (record_file env ?rp k)]"
      "exported evs = exports_of env r ?rp pre"
      by blast
    with u t4 lv show ?thesis
      by (intro exI[of _ evs]) simp
  qed
  have c1: "\<forall>w3. ReadFile w3 ?car = Inr repoBytes \<longrightarrow>
            fst (unpackRecords env ?car ?rp w3) = Some err"
    using unpack by blast
  obtain x w3 where dd: "downloadRepo env ident ?car ?w2 = (x, w3)"
    by (cases "downloadRepo env ident ?car ?w2")
  with host fetch carw have x: "x = None"
    and t3: "trace w3 = trace w @ [PrintProcessing atid, NetLookup atid,
        PrintDownloading (PDSEndpoint ident) ?car, NetGetRepo (PDSEndpoint ident) (DID ident),
        FileWritten ?car repoBytes]"
    and rd: "ReadFile w3 ?car = Inr repoBytes"
    by (auto simp: downloadRepo_def Let_def WriteFile_def ReadFile_def files_def)
  from unpack[OF rd] obtain evs where
    u1: "fst (unpackRecords env ?car ?rp w3) = Some err"
    and u2: "trace (snd (unpackRecords env ?car ?rp w3))
          = trace w3 @ [PrintWritingOutput ?rp, FileWritten (commit_file env ?rp) cj] @ evs
              @ [PrintRecordPath (Join env ?rp k), FileWriteFailed (record_file env ?rp k)]"
    and u3: "exported evs = exports_of env r ?rp pre"
    by blast
  obtain y w4 where uu: "unpackRecords env ?car ?rp w3 = (y, w4)"
    by (cases "unpackRecords env ?car ?rp w3")
  with u1 u2 have y: "y = Some err"
    and t4: "trace w4
          = trace w3 @ [PrintWritingOutput ?rp, FileWritten (commit_file env ?rp) cj] @ evs
              @ [PrintRecordPath (Join env ?rp k), FileWriteFailed (record_file env ?rp k)]"
    by simp_all
  have pr: "processRepo fuel env config did w = (Returned (Some err), w4)"
    using processRepo_stages[OF parse lookup, of fuel config w] dd x uu y by simp
  have c2: "fst (processRepo fuel env config did w) = Returned (Some err)"
    using pr by simp
  have c3: "\<exists>evs. trace (snd (processRepo fuel env config did w))
          = trace w
            @ [PrintProcessing atid, NetLookup atid,
               PrintDownloading (PDSEndpoint ident) ?car,
               NetGetRepo (PDSEndpoint ident) (DID ident),
               FileWritten ?car repoBytes,
               PrintWritingOutput ?rp,
               FileWritten (commit_file env ?rp) cj]
            @ evs
            @ [PrintRecordPath (Join env ?rp k), FileWriteFailed (record_file env ?rp k)]
        \<and> exported evs = exports_of env r ?rp pre"
    using pr t4 u3 t3 by (intro exI[of _ evs]) simp
  have c4: "\<forall>k' v' e w'. GetRecord r k' = Inl e \<longrightarrow>
          ?cb k' v' w' = (None, emit (WarnGetRecord k' e) w')"
    by (simp add: record_callback_def)
  have c5: "\<forall>k' v' c' rec' e w'. GetRecord r k' = Inr (c', rec') \<and> MarshalIndent env rec' = Inl e \<longrightarrow>
          fst (?cb k' v' w') = None"
    by (simp add: record_callback_def Let_def)
  from c1 c2 c3 c4 c5 show ?thesis by (intro conjI)
qed

theorem record_write_failure_aborts_witness:
  "write_fault disk_full_env ''records/did:plc:alice/post/3.json'' = OpenFails ''disk full''
   \<and> DownloadBlobs demo_config
   \<and> fst (processRepo 3 disk_full_env demo_config ''did:plc:alice'' empty_world)
       = Returned (Some ''disk full'')
   \<and> fst (unpackRecords disk_full_env ''cars/did:plc:alice.car'' ''records/did:plc:alice''
         car_world) = Some ''disk full''
   \<and> trace (snd (processRepo 3 disk_full_env demo_config ''did:plc:alice'' empty_world))
       = [PrintProcessing ''did:plc:alice'', NetLookup ''did:plc:alice'',
          PrintDownloading ''pds.example'' ''cars/did:plc:alice.car'',
          NetGetRepo ''pds.example'' ''did:plc:alice'',
          FileWritten ''cars/did:plc:alice.car'' ''car of did:plc:alice'',
          PrintWritingOutput ''records/did:plc:alice'',
          FileWritten ''records/did:plc:alice/_commit.json'' ''{commit of alice}'',
          PrintRecordPath ''records/did:plc:alice/post/1'',
          FileWritten ''records/did:plc:alice/post/1.json'' ''{record post/1}'',
          WarnGetRecord ''post/2'' ''block not found'',
          PrintRecordPath ''records/did:plc:alice/post/3'',
          FileWriteFailed ''records/did:plc:alice/post/3.json'']"
proof -
  have parse: "ParseAtIdentifier disk_full_env ''did:plc:alice'' = Inr ''did:plc:alice''"
    by (simp add: disk_full_env_def demo_env_def)
  have lookup: "Lookup disk_full_env ''did:plc:alice'' = Inr alice"
    by (simp add: disk_full_env_def demo_env_def)
  have host: "PDSEndpoint alice \<noteq> []"
    by (simp add: alice_def)
  have fetch: "SyncGetRepo disk_full_env (PDSEndpoint alice) (DID alice) = Inr ''car of did:plc:alice''"
    by (simp add: disk_full_env_def demo_env_def alice_def)
  have car: "Join disk_full_env (CarsDir demo_config) (DID alice @ ''.car'') = ''cars/did:plc:alice.car''"
    and rp: "Join disk_full_env (RecordsDir demo_config) (DID alice) = ''records/did:plc:alice''"
    by (simp_all add: disk_full_env_def demo_env_def demo_config_def alice_def)
  have carw: "write_fault disk_full_env (Join disk_full_env (CarsDir demo_config) (DID alice @ ''.car''))
      = NoFault"
    by (simp add: car) (simp add: disk_full_env_def demo_env_def)
  have dec: "ReadRepoFromCar disk_full_env ''car of did:plc:alice'' = Inr alice_repo"
    by (simp add: disk_full_env_def demo_env_def)
  have cm: "MarshalIndent disk_full_env (SignedCommit alice_repo) = Inr ''{commit of alice}''"
    by (simp add: disk_full_env_def demo_env_def alice_repo_def)
  have cw: "write_fault disk_full_env
      (commit_file disk_full_env (Join disk_full_env (RecordsDir demo_config) (DID alice))) = NoFault"
    by (simp add: rp) (simp add: commit_file_def disk_full_env_def demo_env_def)
  have lv: "leaves alice_repo
      = [(''post/1'', ''cid1''), (''post/2'', ''cid2'')] @ (''post/3'', ''cid3'') # []"
    by (simp add: alice_repo_def)
  have prew: "\<forall>(k', v')\<in>set [(''post/1'', ''cid1''), (''post/2'', ''cid2'')].
      write_fault disk_full_env
        (record_file disk_full_env (Join disk_full_env (RecordsDir demo_config) (DID alice)) k')
      = NoFault"
    by (simp add: rp) (simp add: record_file_def disk_full_env_def demo_env_def)
  have g: "GetRecord alice_repo ''post/3'' = Inr (''cid'', ''record post/3'')"
    by (simp add: alice_repo_def)
  have m: "MarshalIndent disk_full_env ''record post/3'' = Inr ''{record post/3}''"
    by (simp add: disk_full_env_def demo_env_def)
  have wf: "write_fault disk_full_env ''records/did:plc:alice/post/3.json'' = OpenFails ''disk full''"
    by (simp add: disk_full_env_def)
  have f: "write_fault disk_full_env
        (record_file disk_full_env (Join disk_full_env (RecordsDir demo_config) (DID alice)) ''post/3'')
      = OpenFails ''disk full''
    \<or> (\<exists>n. write_fault disk_full_env
        (record_file disk_full_env (Join disk_full_env (RecordsDir demo_config) (DID alice)) ''post/3'')
      = WriteFails ''disk full'' n)"
    by (simp add: rp) (simp add: record_file_def disk_full_env_def demo_env_def)
  note inst = record_write_failure_aborts
    [OF parse lookup host fetch carw dec cm cw lv prew g m f, where fuel = 3 and w = empty_world]
  have res: "fst (processRepo 3 disk_full_env demo_config ''did:plc:alice'' empty_world)
       = Returned (Some ''disk full'')"
    using inst by (elim conjE)
  have rd: "ReadFile car_world ''cars/did:plc:alice.car'' = Inr ''car of did:plc:alice''"
    by (simp add: ReadFile_def car_world_def files_def)
  have un: "fst (unpackRecords disk_full_env ''cars/did:plc:alice.car'' ''records/did:plc:alice''
         car_world) = Some ''disk full''"
    using inst [THEN conjunct1, rule_format, of car_world] rd by (simp add: car rp)
  have on: "DownloadBlobs demo_config"
    by (simp add: demo_config_def)
  have tr: "trace (snd (processRepo 3 disk_full_env demo_config ''did:plc:alice'' empty_world))
       = [PrintProcessing ''did:plc:alice'', NetLookup ''did:plc:alice'',
          PrintDownloading ''pds.example'' ''cars/did:plc:alice.car'',
          NetGetRepo ''pds.example'' ''did:plc:alice'',
          FileWritten ''cars/did:plc:alice.car'' ''car of did:plc:alice'',
          PrintWritingOutput ''records/did:plc:alice'',
          FileWritten ''records/did:plc:alice/_commit.json'' ''{commit of alice}'',
          PrintRecordPath ''records/did:plc:alice/post/1'',
          FileWritten ''records/did:plc:alice/post/1.json'' ''{record post/1}'',
          WarnGetRecord ''post/2'' ''block not found'',
          PrintRecordPath ''records/did:plc:alice/post/3'',
          FileWriteFailed ''records/did:plc:alice/post/3.json'']"
    by code_simp
  from wf on res un tr show ?thesis by (intro conjI)
qed

text \<open>
  Claim C10. For an identity that has a PDS endpoint, \<^verbatim>\<open>downloadRepo\<close> calls the network
  for the archive in every world, whether or not a file exists at the path of the archive,
  and when the fetch and the write succeed the file holds the fetched bytes afterwards.
  \<^verbatim>\<open>processRepo\<close> makes that call for every identifier that resolves to such an
  identity.
\<close>

theorem archive_always_fetched:
  "(PDSEndpoint ident \<noteq> [] \<longrightarrow>
      (\<exists>rest. trace (snd (downloadRepo env ident carPath w))
          = trace w @ PrintDownloading (PDSEndpoint ident) carPath
              # NetGetRepo (PDSEndpoint ident) (DID ident) # rest)
      \<and> (\<forall>repoBytes. SyncGetRepo env (PDSEndpoint ident) (DID ident) = Inr repoBytes
            \<and> write_fault env carPath = NoFault \<longrightarrow>
            fst (downloadRepo env ident carPath w) = None
            \<and> files (snd (downloadRepo env ident carPath w)) carPath = Some repoBytes))
   \<and> (ParseAtIdentifier env did = Inr atid \<and> Lookup env atid = Inr ident
      \<and> PDSEndpoint ident \<noteq> [] \<longrightarrow>
      (\<exists>rest. trace (snd (processRepo fuel env config did w))
          = trace w @ PrintProcessing atid # NetLookup atid
              # PrintDownloading (PDSEndpoint ident) (Join env (CarsDir config) (DID ident @ ''.car''))
              # NetGetRepo (PDSEndpoint ident) (DID ident) # rest))"
proof (intro conjI impI allI)
  assume h: "PDSEndpoint ident \<noteq> []"
  from downloadRepo_events[OF h, of env carPath w]
  show "\<exists>rest. trace (snd (downloadRepo env ident carPath w))
          = trace w @ PrintDownloading (PDSEndpoint ident) carPath
              # NetGetRepo (PDSEndpoint ident) (DID ident) # rest" by blast
  fix repoBytes
  assume "SyncGetRepo env (PDSEndpoint ident) (DID ident) = Inr repoBytes
            \<and> write_fault env carPath = NoFault"
  with h show "fst (downloadRepo env ident carPath w) = None"
    and "files (snd (downloadRepo env ident carPath w)) carPath = Some repoBytes"
    by (simp_all add: downloadRepo_def Let_def WriteFile_def files_def)
next
  assume a: "ParseAtIdentifier env did = Inr atid \<and> Lookup env atid = Inr ident
      \<and> PDSEndpoint ident \<noteq> []"
  let ?w2 = "emit (NetLookup atid) (emit (PrintProcessing atid) w)"
  let ?car = "Join env (CarsDir config) (DID ident @ ''.car'')"
  let ?rp = "Join env (RecordsDir config) (DID ident)"
  from a have st: "processRepo fuel env config did w =
     (case downloadRepo env ident ?car ?w2 of
        (Some err, w3) \<Rightarrow> (Returned (Some err), w3)
      | (None, w3) \<Rightarrow>
          (case unpackRecords env ?car ?rp w3 of
             (Some err, w4) \<Rightarrow> (Returned (Some err), w4)
           | (None, w4) \<Rightarrow>
               if DownloadBlobs config
               then downloadBlobs fuel env ident ?rp w4
               else (Returned None, w4)))"
    using processRepo_stages[of env did atid ident fuel config w] by simp
  obtain r3 w3 where d: "downloadRepo env ident ?car ?w2 = (r3, w3)"
    by (cases "downloadRepo env ident ?car ?w2")
  from a downloadRepo_events[of ident env ?car ?w2] d obtain ev3 where
    e3: "trace w3 = trace ?w2 @ PrintDownloading (PDSEndpoint ident) ?car
           # NetGetRepo (PDSEndpoint ident) (DID ident) # ev3" by auto
  obtain r4 w4 where u: "unpackRecords env ?car ?rp w3 = (r4, w4)"
    by (cases "unpackRecords env ?car ?rp w3")
  from unpackRecords_quiet[of env ?car ?rp w3] u obtain ev4 where
    e4: "trace w4 = trace w3 @ ev4" by auto
  from downloadBlobs_quiet[of fuel env ident ?rp w4] obtain ev5 where
    e5: "trace (snd (downloadBlobs fuel env ident ?rp w4)) = trace w4 @ ev5" by blast
  have "\<exists>ev. trace (snd (processRepo fuel env config did w)) = trace w3 @ ev"
    using st d u e4 e5 by (cases r3; cases r4; cases "DownloadBlobs config") auto
  with e3 show "\<exists>rest. trace (snd (processRepo fuel env config did w))
          = trace w @ PrintProcessing atid # NetLookup atid
              # PrintDownloading (PDSEndpoint ident) ?car
              # NetGetRepo (PDSEndpoint ident) (DID ident) # rest"
    by auto
qed

theorem archive_always_fetched_witness:
  "files stale_world ''cars/did:plc:alice.car'' = Some ''old archive''
   \<and> PDSEndpoint alice = ''pds.example''
   \<and> trace (snd (downloadRepo demo_env alice ''cars/did:plc:alice.car'' stale_world))
       = [PrintDownloading ''pds.example'' ''cars/did:plc:alice.car'',
          NetGetRepo ''pds.example'' ''did:plc:alice'',
          FileWritten ''cars/did:plc:alice.car'' ''car of did:plc:alice'']
   \<and> files (snd (downloadRepo demo_env alice ''cars/did:plc:alice.car'' stale_world))
         ''cars/did:plc:alice.car'' = Some ''car of did:plc:alice''"
proof -
  have old: "files stale_world ''cars/did:plc:alice.car'' = Some ''old archive''"
    by (simp add: stale_world_def files_def)
  have h: "PDSEndpoint alice = ''pds.example''"
    by (simp add: alice_def)
  have g: "SyncGetRepo demo_env (PDSEndpoint alice) (DID alice) = Inr ''car of did:plc:alice''"
    by (simp add: demo_env_def alice_def)
  have nf: "write_fault demo_env ''cars/did:plc:alice.car'' = NoFault"
    by (simp add: demo_env_def)
  have t: "trace (snd (downloadRepo demo_env alice ''cars/did:plc:alice.car'' stale_world))
       = [PrintDownloading ''pds.example'' ''cars/did:plc:alice.car'',
          NetGetRepo ''pds.example'' ''did:plc:alice'',
          FileWritten ''cars/did:plc:alice.car'' ''car of did:plc:alice'']"
    by code_simp
  from archive_always_fetched
    [where ident = alice and env = demo_env and carPath = "''cars/did:plc:alice.car''"
       and w = stale_world] h g nf
  have "files (snd (downloadRepo demo_env alice ''cars/did:plc:alice.car'' stale_world))
         ''cars/did:plc:alice.car'' = Some ''car of did:plc:alice''"
    by auto
  with old h t show ?thesis by simp
qed

end
